theory Spec2Isabelle
  imports Complex_Main "HOL-Library.Word" "HOL-Library.Log_Nat"
begin

section \<open>Exceptions, bytes and the clock\<close>

text \<open>
  The exception classes the sender tells apart. The first five are the classes named by
  the transport handler of \<open>_async_send_internal\<close>; \<open>RuntimeError\<close> is the one
  \<open>close\<close> swallows; \<open>StructError\<close> is what \<open>struct.pack\<close> and \<open>struct.unpack\<close>
  raise; \<open>OtherException\<close> stands for every other class deriving from \<open>Exception\<close>.
  Every value of this type is taken to be caught by an \<open>except Exception\<close> clause.
  (From Python 3.8 on \<open>CancelledError\<close> derives from \<open>BaseException\<close>; the source
  catches it by name around its awaits, and the calls that stand under a bare
  \<open>except Exception\<close>, the overflow handler and \<open>writer.close\<close>, are synchronous.)
  Exits that do not derive from \<open>Exception\<close> (\<open>KeyboardInterrupt\<close>, \<open>SystemExit\<close>)
  end the task and are not modelled.
\<close>

datatype exn = SocketError | AsyncTimeoutError | CancelledError | OSError | BlockingIOError
  | RuntimeError | StructError | OtherException

text \<open>The tuple of the first \<open>except\<close> clause of \<open>_async_send_internal\<close>.\<close>

fun is_transport :: "exn \<Rightarrow> bool" where
  "is_transport SocketError = True"
| "is_transport AsyncTimeoutError = True"
| "is_transport CancelledError = True"
| "is_transport OSError = True"
| "is_transport BlockingIOError = True"
| "is_transport _ = False"

type_synonym byte = "8 word"
type_synonym bytes = "byte list"

text \<open>
  A Python float is an IEEE 754 double; it is modelled by the rational number it denotes.
  \<open>fl\<close> rounds a rational to the nearest double, ties to even: with
  \<open>2 ^ L \<le> \<bar>x\<bar> < 2 ^ (L + 1)\<close> the doubles around \<open>x\<close> are the multiples of
  \<open>2 ^ (L - 52)\<close>. Overflow and subnormal numbers are not modelled: every number
  rounded below lies in the normal range. The rounding is applied where the codec
  computes with floats; clock readings and timeouts of the connection manager are
  compared as the numbers they are.
\<close>

type_synonym pyfloat = rat

definition floor_log2 :: "rat \<Rightarrow> int" where
  "floor_log2 x =
     (case quotient_of x of (p, q) \<Rightarrow>
        (let e0 = bitlen p - bitlen q in if 2 powi e0 \<le> x then e0 else e0 - 1))"

definition round_half_even :: "rat \<Rightarrow> int" where
  "round_half_even y =
     (let n = \<lfloor>y\<rfloor>; r = y - of_int n
      in if r < 1 / 2 then n else if 1 / 2 < r then n + 1
         else if even n then n else n + 1)"

definition fl :: "rat \<Rightarrow> pyfloat" where
  "fl x =
     (if x = 0 then 0
      else (let e = floor_log2 \<bar>x\<bar> - 52;
                m = round_half_even (\<bar>x\<bar> * 2 powi (- e))
            in sgn x * of_int m * 2 powi e))"

section \<open>struct.pack and struct.unpack with format \<open>>II\<close>\<close>

text \<open>
  The two calls of the standard library that \<open>EventTime\<close> makes: two unsigned 32-bit
  integers, big-endian. \<open>struct.pack\<close> raises \<open>struct.error\<close> on an argument outside
  \<open>0 .. 2 ^ 32 - 1\<close>, \<open>struct.unpack\<close> on a buffer that is not 8 bytes long.
\<close>

definition be32 :: "int \<Rightarrow> bytes" where
  "be32 n = [word_of_int (n div 16777216), word_of_int (n div 65536),
             word_of_int (n div 256), word_of_int n]"

definition from_be :: "bytes \<Rightarrow> int" where
  "from_be bs = foldl (\<lambda>acc b. acc * 256 + uint b) 0 bs"

definition pack_II :: "int \<Rightarrow> int \<Rightarrow> exn + bytes" where
  "pack_II a b =
     (if 0 \<le> a \<and> a < 4294967296 \<and> 0 \<le> b \<and> b < 4294967296
      then Inr (be32 a @ be32 b) else Inl StructError)"

definition unpack_II :: "bytes \<Rightarrow> exn + int \<times> int" where
  "unpack_II bs =
     (if length bs = 8 then Inr (from_be (take 4 bs), from_be (drop 4 bs))
      else Inl StructError)"

section \<open>EventTime\<close>

text \<open>\<open>int(x)\<close> on a float truncates toward zero. \<open>x % 1\<close> is the fractional part
  in \<open>[0, 1]\<close>, with the sign of the divisor: for \<open>x \<ge> 0\<close> it is \<open>fmod(x, 1)\<close>, which is
  exact; for \<open>x < 0\<close> one is added to \<open>fmod(x, 1)\<close>, and the sum is rounded.\<close>

definition py_int :: "pyfloat \<Rightarrow> int" where
  "py_int x = (if 0 \<le> x then \<lfloor>x\<rfloor> else \<lceil>x\<rceil>)"

definition py_mod1 :: "pyfloat \<Rightarrow> pyfloat" where
  "py_mod1 x = (if 0 \<le> x then x - of_int \<lfloor>x\<rfloor> else fl (x - of_int \<lfloor>x\<rfloor>))"

text \<open>\<open>msgpack.ExtType\<close>: a named tuple of the type code and the payload.\<close>

record ExtType =
  code :: int
  data :: bytes

text \<open>\<open>timestamp % 1 * 10 ** 9\<close> is a float product, rounded.\<close>

definition EventTime :: "pyfloat \<Rightarrow> exn + ExtType" where
  "EventTime timestamp =
     (let seconds = py_int timestamp;
          nanoseconds = py_int (fl (py_mod1 timestamp * 10 ^ 9))
      in case pack_II seconds nanoseconds of
           Inl e \<Rightarrow> Inl e
         | Inr d \<Rightarrow> Inr \<lparr>code = 0, data = d\<rparr>)"

text \<open>\<open>nanoseconds / 10 ** 9\<close> is a correctly rounded division of two integers, and its
  sum with \<open>seconds\<close> (below \<open>2 ^ 32\<close>, so a double as it is) is rounded again.\<close>

definition from_bytes :: "bytes \<Rightarrow> exn + pyfloat" where
  "from_bytes b =
     (case unpack_II b of
        Inl e \<Rightarrow> Inl e
      | Inr (seconds, nanoseconds) \<Rightarrow>
          Inr (fl (of_int seconds + fl (of_int nanoseconds / 10 ^ 9))))"

section \<open>The sender\<close>

text \<open>
  Reader and writer objects are opaque handles. Calls to the collaborators of the sender
  (the connection factory, the writer, the overflow handler) are recorded in \<open>io_log\<close>,
  a ghost field that the source does not have: it only lets a theorem count the calls.
\<close>

type_synonym handle = nat

datatype event =
    ConnectAttempt
  | Write handle bytes
  | OverflowCall bytes
  | WriterClose handle

text \<open>
  The fields of \<open>FluentSender\<close>, without their leading underscore.
  \<open>buffer_overflow_handler\<close> holds whether a handler is configured; what a call of it
  does is given by the environment below. The lock, the connection factory (the module's
  own \<open>connection_factory\<close> is modelled) and the packer options are not fields of the
  model; writes to stdout and stderr are not modelled.
\<close>

record sender =
  tag :: string
  host :: string
  port :: nat
  bufmax :: int
  timeout :: pyfloat
  verbose :: bool
  buffer_overflow_handler :: bool
  log_unhandled_exceptions :: bool
  pendings :: "bytes option"
  reader :: "handle option"
  writer :: "handle option"
  retry_timeout :: pyfloat
  last_error :: "exn option"
  last_error_time :: pyfloat
  error_count :: int
  error_count_limit :: int
  io_log :: "event list"

text \<open>\<open>__init__\<close>, its parameters in the order of the source.\<close>

definition FluentSender ::
  "string \<Rightarrow> string \<Rightarrow> nat \<Rightarrow> int \<Rightarrow> pyfloat \<Rightarrow> bool \<Rightarrow> bool \<Rightarrow> pyfloat \<Rightarrow> bool \<Rightarrow> int \<Rightarrow> sender"
where
  "FluentSender tag' host' port' bufmax' timeout' verbose' handler' retry_timeout'
       log_unhandled' error_count_limit' =
     \<lparr>tag = tag', host = host', port = port', bufmax = bufmax', timeout = timeout',
      verbose = verbose', buffer_overflow_handler = handler',
      log_unhandled_exceptions = log_unhandled',
      pendings = None, reader = None, writer = None, retry_timeout = retry_timeout',
      last_error = None, last_error_time = 0, error_count = 0,
      error_count_limit = error_count_limit', io_log = []\<rparr>"

text \<open>The constructor with the default value of every keyword argument.\<close>

definition default_sender :: "string \<Rightarrow> sender" where
  "default_sender tag' =
     FluentSender tag' ''localhost'' 24224 (1 * 1024 * 1024) 3 False False 30 False 10"

text \<open>
  What the outside world answers during one call: the clock readings, the outcome of
  \<open>asyncio.open_connection\<close> under \<open>wait_for\<close>, of \<open>writer.write\<close> followed by the awaited
  \<open>drain\<close>, of a call of the overflow handler and of \<open>writer.close\<close>. An outcome
  \<open>None\<close> is a normal return, \<open>Some e\<close> the exception raised.
\<close>

record env =
  t_get_writer :: pyfloat
  open_outcome :: "exn + handle \<times> handle"
  t_connect_error :: pyfloat
  write_outcome :: "exn option"
  t_send_error :: pyfloat
  handler_outcome :: "exn option"
  close_outcome :: "exn option"
  t_emit :: pyfloat
  t_emit_error :: pyfloat

text \<open>Truthiness of \<open>self._pendings\<close>: neither \<open>None\<close> nor the empty byte string.\<close>

definition truthy :: "bytes option \<Rightarrow> bool" where
  "truthy p = (case p of None \<Rightarrow> False | Some b \<Rightarrow> b \<noteq> [])"

definition clear_last_error :: "sender \<Rightarrow> sender" where
  "clear_last_error s = s\<lparr>last_error := None, last_error_time := 0\<rparr>"

text \<open>The setter of the property \<open>last_error\<close>; \<open>now\<close> is what \<open>time.time()\<close> returns.\<close>

definition set_last_error :: "exn option \<Rightarrow> pyfloat \<Rightarrow> sender \<Rightarrow> sender" where
  "set_last_error err now s =
     (case err of
        Some e \<Rightarrow> s\<lparr>last_error := Some e, last_error_time := now\<rparr>
      | None \<Rightarrow> clear_last_error s)"

text \<open>The module's \<open>connection_factory\<close>: both handlers record the exception and fall
  through, so the function returns \<open>None\<close>.\<close>

definition connection_factory :: "sender \<Rightarrow> env \<Rightarrow> (handle \<times> handle) option \<times> sender" where
  "connection_factory s e =
     (let s1 = s\<lparr>io_log := io_log s @ [ConnectAttempt]\<rparr>
      in case open_outcome e of
           Inr c \<Rightarrow> (Some c, s1)
         | Inl ex \<Rightarrow> (None, set_last_error (Some ex) (t_connect_error e) s1))"

definition get_writer :: "sender \<Rightarrow> env \<Rightarrow> handle option \<times> sender" where
  "get_writer s e =
     (case writer s of
        Some w \<Rightarrow> (Some w, s)
      | None \<Rightarrow>
          if last_error_time s + retry_timeout s > t_get_writer e then (None, s)
          else (case connection_factory s e of
                  (Some (r, w), s1) \<Rightarrow>
                    (Some w, s1\<lparr>reader := Some r, writer := Some w, error_count := 0\<rparr>)
                | (None, s1) \<Rightarrow> (writer s1, s1)))"

text \<open>\<open>close\<close>: the result is the exception that escapes, if any. Only \<open>RuntimeError\<close>
  is swallowed; any other exception of \<open>writer.close()\<close> leaves the handles set.\<close>

definition close :: "sender \<Rightarrow> env \<Rightarrow> exn option \<times> sender" where
  "close s e =
     (case writer s of
        None \<Rightarrow> (None, s)
      | Some w \<Rightarrow>
          (let s1 = s\<lparr>io_log := io_log s @ [WriterClose w]\<rparr>
           in case close_outcome e of
                None \<Rightarrow> (None, s1\<lparr>reader := None, writer := None\<rparr>)
              | Some ex \<Rightarrow>
                  if ex = RuntimeError then (None, s1\<lparr>reader := None, writer := None\<rparr>)
                  else (Some ex, s1)))"

text \<open>\<open>_call_buffer_overflow_handler\<close>: whatever the handler raises is swallowed.\<close>

definition call_buffer_overflow_handler :: "sender \<Rightarrow> bytes \<Rightarrow> env \<Rightarrow> sender" where
  "call_buffer_overflow_handler s pending_events e =
     (if buffer_overflow_handler s
      then (case handler_outcome e of
              None \<Rightarrow> s\<lparr>io_log := io_log s @ [OverflowCall pending_events]\<rparr>
            | Some ex \<Rightarrow> s\<lparr>io_log := io_log s @ [OverflowCall pending_events]\<rparr>)
      else s)"

definition clean :: "sender \<Rightarrow> bytes \<Rightarrow> env \<Rightarrow> sender" where
  "clean s bytes' e =
     (if truthy (pendings s) \<and> int (length (the (pendings s))) > bufmax s
      then (call_buffer_overflow_handler s (the (pendings s)) e)\<lparr>pendings := None\<rparr>
      else s\<lparr>pendings := Some bytes'\<rparr>)"

text \<open>The first statement of \<open>_async_send_internal\<close>, under its comment
  \<open># buffering\<close>: a backlog is extended by the new bytes, and the whole of it is what
  the call goes on to send.\<close>

definition buffering :: "sender \<Rightarrow> bytes \<Rightarrow> sender \<times> bytes" where
  "buffering s bytes' =
     (if truthy (pendings s)
      then (s\<lparr>pendings := Some (the (pendings s) @ bytes')\<rparr>, the (pendings s) @ bytes')
      else (s, bytes'))"

text \<open>\<open>_async_send_internal\<close>: \<open>Inl\<close> is an exception that escapes the function (one
  raised by \<open>close\<close> inside a handler), \<open>Inr\<close> the boolean it returns.\<close>

definition async_send_internal :: "sender \<Rightarrow> env \<Rightarrow> bytes \<Rightarrow> (exn + bool) \<times> sender" where
  "async_send_internal s e bytes' =
     (case buffering s bytes' of
        (s1, bytes1) \<Rightarrow>
          (case get_writer s1 e of
             (None, s2) \<Rightarrow> (Inr False, clean s2 bytes1 e)
           | (Some w, s2) \<Rightarrow>
               (let s3 = s2\<lparr>io_log := io_log s2 @ [Write w bytes1]\<rparr>
                in case write_outcome e of
                     None \<Rightarrow> (Inr True, s3\<lparr>pendings := None, last_error_time := 0\<rparr>)
                   | Some ex \<Rightarrow>
                       if is_transport ex
                       then (let s4 = set_last_error (Some ex) (t_send_error e) s3;
                                 s5 = clean s4 bytes1 e
                             in case close s5 e of
                                  (Some ex', s6) \<Rightarrow> (Inl ex', s6)
                                | (None, s6) \<Rightarrow> (Inr False, s6))
                       else (let s4 = s3\<lparr>error_count := error_count s3 + 1\<rparr>;
                                 s5 = set_last_error (Some ex) (t_send_error e) s4;
                                 s6 = clean s5 bytes1 e
                             in if error_count s6 > error_count_limit s6
                                then (case close s6 e of
                                        (Some ex', s7) \<Rightarrow> (Inl ex', s7)
                                      | (None, s7) \<Rightarrow> (Inr False, s7))
                                else (Inr False, s6)))))"

text \<open>\<open>_async_send\<close>: the result is Python's \<open>True\<close>, \<open>False\<close> or \<open>None\<close>, the last
  written \<open>None\<close> here too.\<close>

definition async_send :: "sender \<Rightarrow> env \<Rightarrow> bytes \<Rightarrow> bool option \<times> sender" where
  "async_send s e bytes' =
     (case async_send_internal s e bytes' of
        (Inl ex, s') \<Rightarrow> (None, s')
      | (Inr result, s') \<Rightarrow> (Some result, s'))"

section \<open>The emit API\<close>

text \<open>
  Records are Python values; \<open>PyObject\<close> is a value the packer may not know.
  \<open>msgpack.packb\<close> with the sender's packer options is a parameter \<open>packb\<close> of the
  functions below, and so is \<open>traceback.format_exc\<close>, here a function of the exception
  being handled.
\<close>

datatype pyval = PyNone | PyStr string | PyInt int | PyDict "(string \<times> pyval) list"
  | PyObject nat

type_synonym packet = "string \<times> ExtType \<times> pyval"

definition make_packet ::
  "(packet \<Rightarrow> exn + bytes) \<Rightarrow> sender \<Rightarrow> string option \<Rightarrow> ExtType \<Rightarrow> pyval \<Rightarrow> exn + bytes"
where
  "make_packet packb s label timestamp data' =
     (let tag' = (if label \<noteq> None \<and> label \<noteq> Some []
                  then tag s @ ''.'' @ the label else tag s)
      in packb (tag', timestamp, data'))"

text \<open>The record sent in place of one that cannot be serialised.\<close>

definition diagnostic :: "string \<Rightarrow> pyval" where
  "diagnostic tb =
     PyDict [(''level'', PyStr ''CRITICAL''),
             (''message'', PyStr ''Can't output to log''),
             (''traceback'', PyStr tb)]"

text \<open>\<open>async_emit_with_time\<close>: \<open>Inl\<close> is an exception that reaches the caller, from
  \<open>EventTime\<close> or from packing the diagnostic record; both are raised outside any
  \<open>try\<close> that would catch them.\<close>

definition async_emit_with_time ::
  "(packet \<Rightarrow> exn + bytes) \<Rightarrow> (exn \<Rightarrow> string) \<Rightarrow> sender \<Rightarrow> env \<Rightarrow> string option
     \<Rightarrow> pyfloat \<Rightarrow> pyval \<Rightarrow> (exn + bool option) \<times> sender"
where
  "async_emit_with_time packb format_exc s e label timestamp data' =
     (case EventTime timestamp of
        Inl ex \<Rightarrow> (Inl ex, s)
      | Inr et \<Rightarrow>
          (case make_packet packb s label et data' of
             Inr bytes' \<Rightarrow>
               (case async_send s e bytes' of (r, s') \<Rightarrow> (Inr r, s'))
           | Inl ex \<Rightarrow>
               (let s1 = set_last_error (Some ex) (t_emit_error e) s
                in case make_packet packb s1 label et (diagnostic (format_exc ex)) of
                     Inl ex' \<Rightarrow> (Inl ex', s1)
                   | Inr bytes' \<Rightarrow>
                       (case async_send s1 e bytes' of (r, s') \<Rightarrow> (Inr r, s')))))"

definition async_emit ::
  "(packet \<Rightarrow> exn + bytes) \<Rightarrow> (exn \<Rightarrow> string) \<Rightarrow> sender \<Rightarrow> env \<Rightarrow> string option
     \<Rightarrow> pyval \<Rightarrow> pyfloat option \<Rightarrow> (exn + bool option) \<times> sender"
where
  "async_emit packb format_exc s e label data' timestamp =
     async_emit_with_time packb format_exc s e label
       (case timestamp of None \<Rightarrow> t_emit e | Some t \<Rightarrow> t) data'"

section \<open>Runs of the sender\<close>

text \<open>A sequence of sends, each with the answers of the outside world during it.\<close>

fun sends :: "sender \<Rightarrow> (env \<times> bytes) list \<Rightarrow> sender" where
  "sends s [] = s"
| "sends s (x # xs) = sends (snd (async_send s (fst x) (snd x))) xs"

text \<open>One operation of the sender, seen as a transition of its state; a state is
  reachable when operations lead to it from a freshly constructed sender.\<close>

inductive step :: "sender \<Rightarrow> sender \<Rightarrow> bool" where
  step_emit: "step s (snd (async_emit packb format_exc s e label data' timestamp))"
| step_emit_with_time:
    "step s (snd (async_emit_with_time packb format_exc s e label t data'))"
| step_send: "step s (snd (async_send s e bytes'))"
| step_send_internal: "step s (snd (async_send_internal s e bytes'))"
| step_get_writer: "step s (snd (get_writer s e))"
| step_clean: "step s (clean s bytes' e)"
| step_close: "step s (snd (close s e))"
| step_set_last_error: "step s (set_last_error err now s)"
| step_clear_last_error: "step s (clear_last_error s)"

inductive reachable :: "sender \<Rightarrow> bool" where
  reachable_init:
    "reachable (FluentSender tag' host' port' bufmax' timeout' verbose' handler'
        retry_timeout' log_unhandled' error_count_limit')"
| reachable_step: "reachable s \<Longrightarrow> step s s' \<Longrightarrow> reachable s'"

text \<open>The calls of \<open>writer.close\<close> and of the overflow handler among logged events, and
  the number of calls of the connection factory.\<close>

fun is_close :: "event \<Rightarrow> bool" where
  "is_close (WriterClose w) = True"
| "is_close _ = False"

fun is_overflow :: "event \<Rightarrow> bool" where
  "is_overflow (OverflowCall b) = True"
| "is_overflow _ = False"


text \<open>The send raises inside the \<open>try\<close> an exception that is not of a transport class:
  the last \<open>except\<close> clause of \<open>_async_send_internal\<close> handles it.\<close>

definition internal_exception :: "env \<Rightarrow> bool" where
  "internal_exception e =
     (case write_outcome e of None \<Rightarrow> False | Some ex \<Rightarrow> \<not> is_transport ex)"

section \<open>Example worlds and senders\<close>

text \<open>A collector that refuses connections, at time 100, and one that accepts them and
  takes every write, at time 200.\<close>

definition env_down :: env where
  "env_down = \<lparr>t_get_writer = 100, open_outcome = Inl OSError, t_connect_error = 100,
     write_outcome = None, t_send_error = 100, handler_outcome = None, close_outcome = None,
     t_emit = 100, t_emit_error = 100\<rparr>"

definition env_up :: env where
  "env_up = \<lparr>t_get_writer = 200, open_outcome = Inr (1, 2), t_connect_error = 200,
     write_outcome = None, t_send_error = 200, handler_outcome = None, close_outcome = None,
     t_emit = 200, t_emit_error = 200\<rparr>"

text \<open>A sender with the default configuration after one delivered send.\<close>

definition connected_sender :: sender where
  "connected_sender = snd (async_send (default_sender ''app'') env_up [1, 2, 3])"



text \<open>The connected sender after a send whose write raised an exception that is not of a
  transport class: one error is counted and the connection stays open.\<close>

definition faulted_sender :: sender where
  "faulted_sender =
     snd (async_send connected_sender (env_up\<lparr>write_outcome := Some OtherException\<rparr>) [4])"

text \<open>A connected sender with \<open>error_count_limit = 1\<close>, and a world where the write raises
  an exception that is not of a transport class.\<close>

definition strict_sender :: sender where
  "strict_sender =
     snd (async_send (FluentSender ''app'' ''localhost'' 24224 (1 * 1024 * 1024) 3 False False
            30 False 1) env_up [1, 2, 3])"

definition env_fault :: env where
  "env_fault = env_up\<lparr>write_outcome := Some OtherException\<rparr>"

text \<open>A sender whose first send met a refused connection and whose second send, after the
  cooldown, was delivered.\<close>

definition recovered_sender :: sender where
  "recovered_sender =
     snd (async_send (snd (async_send (default_sender ''app'') env_down [1, 2])) env_up [3])"



section \<open>Properties of the rounding\<close>

lemma bitlen_powi:
  assumes "0 < (p::int)"
  shows "(2::rat) powi (bitlen p - 1) \<le> of_int p" and "of_int p < (2::rat) powi bitlen p"
proof -
  have b: "1 \<le> bitlen p" using assms bitlen_eq_zero_iff [of p] bitlen_nonneg [of p] by linarith
  have lo: "2 ^ nat (bitlen p - 1) \<le> p" and hi: "p < 2 ^ nat (bitlen p)"
    using bitlen_bounds [OF assms] by simp_all
  have "(2::rat) powi (bitlen p - 1) = of_int (2 ^ nat (bitlen p - 1))"
    using b by (simp add: power_int_def)
  also have "\<dots> \<le> of_int p" using lo by (simp only: of_int_le_iff)
  finally show "(2::rat) powi (bitlen p - 1) \<le> of_int p" .
  have "of_int p < (of_int (2 ^ nat (bitlen p)) :: rat)" using hi by (simp only: of_int_less_iff)
  also have "\<dots> = 2 powi bitlen p" using b by (simp add: power_int_def)
  finally show "of_int p < (2::rat) powi bitlen p" .
qed

lemma floor_log2_bounds:
  assumes "0 < x"
  shows "2 powi floor_log2 x \<le> x" and "x < 2 powi (floor_log2 x + 1)"
proof -
  obtain p q where pq: "quotient_of x = (p, q)" by (cases "quotient_of x")
  have q: "0 < q" by (rule quotient_of_denom_pos [OF pq])
  have x: "x = of_int p / of_int q" by (rule quotient_of_div [OF pq])
  have p: "0 < p" using assms q x by (simp add: zero_less_divide_iff)
  define e0 where "e0 = bitlen p - bitlen q"
  have qr: "(0::rat) < of_int q" using q by simp
  have up: "x < 2 powi (e0 + 1)"
  proof -
    have "of_int p < (2::rat) powi bitlen p" by (rule bitlen_powi(2) [OF p])
    also have "\<dots> = 2 powi (e0 + 1) * 2 powi (bitlen q - 1)"
      by (simp add: e0_def flip: power_int_add)
    also have "\<dots> \<le> 2 powi (e0 + 1) * of_int q"
      using bitlen_powi(1) [OF q] by (intro mult_left_mono) simp_all
    finally show ?thesis using qr by (simp add: x pos_divide_less_eq)
  qed
  have lo: "2 powi (e0 - 1) \<le> x"
  proof -
    have "(2::rat) powi (e0 - 1) * of_int q \<le> 2 powi (e0 - 1) * 2 powi bitlen q"
      using bitlen_powi(2) [OF q] by (intro mult_left_mono) simp_all
    also have "\<dots> = 2 powi (bitlen p - 1)"
      by (simp add: e0_def flip: power_int_add)
    also have "\<dots> \<le> of_int p" by (rule bitlen_powi(1) [OF p])
    finally show ?thesis using qr by (simp add: x pos_le_divide_eq)
  qed
  have fl2: "floor_log2 x = (if 2 powi e0 \<le> x then e0 else e0 - 1)"
    by (simp add: floor_log2_def pq e0_def Let_def)
  show "2 powi floor_log2 x \<le> x" using lo by (simp add: fl2)
  show "x < 2 powi (floor_log2 x + 1)" using up by (auto simp: fl2)
qed

lemma floor_log2_unique:
  assumes "(2::rat) powi L \<le> x" and "x < 2 powi (L + 1)"
  shows "floor_log2 x = L"
proof -
  have x: "0 < x" using assms(1) zero_less_power_int [of "2::rat" L] by linarith
  let ?M = "floor_log2 x"
  have "(2::rat) powi ?M < 2 powi (L + 1)"
    using floor_log2_bounds(1) [OF x] assms(2) by linarith
  then have a: "?M < L + 1"
    using power_int_increasing [of "L + 1" ?M "2::rat"] by (cases "?M < L + 1") auto
  have "(2::rat) powi L < 2 powi (?M + 1)"
    using floor_log2_bounds(2) [OF x] assms(1) by linarith
  then have b: "L < ?M + 1"
    using power_int_increasing [of "?M + 1" L "2::rat"] by (cases "L < ?M + 1") auto
  show ?thesis using a b by linarith
qed

lemma round_half_even_int [simp]: "round_half_even (of_int n) = n"
  by (simp add: round_half_even_def)

lemma round_half_even_near:
  assumes "\<bar>y - of_int m\<bar> < 1 / 2"
  shows "round_half_even y = m"
proof -
  have lo: "of_int m - 1 / 2 < y" and hi: "y < of_int m + 1 / 2"
    using assms by linarith+
  show ?thesis
  proof (cases "of_int m \<le> y")
    case True
    then have "\<lfloor>y\<rfloor> = m" using hi by (intro floor_unique) linarith+
    then show ?thesis using hi by (simp add: round_half_even_def Let_def)
  next
    case False
    then have f: "\<lfloor>y\<rfloor> = m - 1" using lo by (intro floor_unique) simp_all
    have "1 / 2 < y - of_int (m - 1)" using lo by simp
    then show ?thesis using f by (simp add: round_half_even_def Let_def)
  qed
qed

lemma round_half_even_error: "\<bar>of_int (round_half_even y) - y\<bar> \<le> 1 / 2"
proof -
  have "of_int \<lfloor>y\<rfloor> \<le> y" "y < of_int \<lfloor>y\<rfloor> + 1" by linarith+
  then show ?thesis by (auto simp: round_half_even_def Let_def)
qed


lemma fl_pos:
  assumes "0 < x"
  shows "fl x = of_int (round_half_even (x * 2 powi (52 - floor_log2 x)))
                  * 2 powi (floor_log2 x - 52)"
  using assms by (simp add: fl_def Let_def)

lemma powi_less_imp_less:
  assumes "(2::rat) powi a < 2 powi b"
  shows "a < b"
  using power_int_increasing [of b a "2::rat"] assms by (cases "a < b") auto

lemma fl_exact:
  assumes "0 < n" and "n < 2 ^ 53"
  shows "fl (of_int n * 2 powi e) = of_int n * 2 powi e"
proof -
  define x :: rat where "x = of_int n * 2 powi e"
  define L where "L = floor_log2 x"
  have x: "0 < x" using assms(1) by (simp add: x_def zero_less_mult_iff)
  have "of_int n < (2::rat) ^ 53" using assms(2) by (simp flip: of_int_less_iff)
  then have "x < 2 ^ 53 * 2 powi e"
    unfolding x_def by (intro mult_strict_right_mono) simp_all
  also have "\<dots> = 2 powi (53 + e)" by (simp add: power_int_add)
  finally have "(2::rat) powi L < 2 powi (53 + e)"
    using floor_log2_bounds(1) [OF x] unfolding L_def by linarith
  then have k: "0 \<le> e + 52 - L" using powi_less_imp_less by fastforce
  have "x * 2 powi (52 - L) = of_int n * (2 powi e * 2 powi (52 - L))"
    by (simp add: x_def)
  also have "2 powi e * 2 powi (52 - L) = (2::rat) powi (e + 52 - L)"
    by (simp flip: power_int_add add: algebra_simps)
  also have "\<dots> = of_int (2 ^ nat (e + 52 - L))"
    using k by (simp add: power_int_def)
  finally have y: "x * 2 powi (52 - L) = of_int (n * 2 ^ nat (e + 52 - L))" by simp
  have "fl x = of_int (n * 2 ^ nat (e + 52 - L)) * 2 powi (L - 52)"
    unfolding fl_pos [OF x] L_def [symmetric] y by (simp only: round_half_even_int)
  also have "\<dots> = x * 2 powi (52 - L) * 2 powi (L - 52)" by (simp only: y)
  also have "\<dots> = x * (2 powi (52 - L) * 2 powi (L - 52))" by simp
  also have "2 powi (52 - L) * 2 powi (L - 52) = (1::rat)"
    by (simp flip: power_int_add)
  finally show ?thesis by (simp add: x_def)
qed

lemma fl_nearest:
  assumes "x = of_int m * 2 powi e"
    and "2 powi (e + 52) \<le> y" and "y < 2 powi (e + 53)"
    and "\<bar>y - x\<bar> < 2 powi e / 2"
  shows "fl y = x"
proof -
  have y: "0 < y" using assms(2) zero_less_power_int [of "2::rat" "e + 52"] by linarith
  have "e + 52 + 1 = e + 53" by simp
  then have "y < 2 powi (e + 52 + 1)" using assms(3) by (simp only:)
  then have L: "floor_log2 y = e + 52"
    by (rule floor_log2_unique [OF assms(2)])
  have pe: "(0::rat) < 2 powi (- e)" by simp
  have inv: "2 powi e * 2 powi (- e) = (1::rat)" by (simp flip: power_int_add)
  have "\<bar>y * 2 powi (- e) - of_int m\<bar> = \<bar>(y - x) * 2 powi (- e)\<bar>"
    using inv by (simp add: assms(1) algebra_simps)
  also have "\<dots> = \<bar>y - x\<bar> * 2 powi (- e)" using pe by (simp add: abs_mult)
  also have "\<dots> < 2 powi e / 2 * 2 powi (- e)"
    using assms(4) pe by (intro mult_strict_right_mono)
  also have "\<dots> = 1 / 2" using inv by simp
  finally have "round_half_even (y * 2 powi (- e)) = m" by (rule round_half_even_near)
  then show ?thesis
    using fl_pos [OF y] by (simp add: L assms(1))
qed

lemma fl_error:
  assumes "0 < x"
  shows "\<bar>fl x - x\<bar> \<le> 2 powi (floor_log2 x - 52) / 2"
proof -
  define L where "L = floor_log2 x"
  define m where "m = round_half_even (x * 2 powi (52 - L))"
  have pe: "(0::rat) < 2 powi (L - 52)" by simp
  have inv: "2 powi (52 - L) * 2 powi (L - 52) = (1::rat)" by (simp flip: power_int_add)
  have "fl x - x = (of_int m - x * 2 powi (52 - L)) * 2 powi (L - 52)"
    using inv unfolding fl_pos [OF assms] L_def [symmetric] m_def [symmetric]
    by (simp add: algebra_simps)
  then have "\<bar>fl x - x\<bar> = \<bar>of_int m - x * 2 powi (52 - L)\<bar> * 2 powi (L - 52)"
    using pe by (simp add: abs_mult)
  also have "\<dots> \<le> 1 / 2 * 2 powi (L - 52)"
    unfolding m_def using pe by (intro mult_right_mono round_half_even_error) simp
  finally show ?thesis by (simp add: L_def)
qed

lemma fl_fixed_mantissa:
  assumes "0 < x" and "fl x = x"
  obtains m where "x = of_int m * 2 powi (floor_log2 x - 52)" "2 ^ 52 \<le> m" "m < 2 ^ 53"
proof -
  define L where "L = floor_log2 x"
  define m where "m = round_half_even (x * 2 powi (52 - L))"
  have inv: "2 powi (L - 52) * 2 powi (52 - L) = (1::rat)" by (simp flip: power_int_add)
  have x: "x = of_int m * 2 powi (L - 52)"
    using assms(2) unfolding fl_pos [OF assms(1)] L_def [symmetric] m_def [symmetric] by simp
  then have "x * 2 powi (52 - L) = of_int m * (2 powi (L - 52) * 2 powi (52 - L))"
    by simp
  then have m: "of_int m = x * 2 powi (52 - L)" using inv by simp
  have pe: "(0::rat) < 2 powi (52 - L)" by simp
  have "(2::rat) powi L * 2 powi (52 - L) \<le> x * 2 powi (52 - L)"
    using floor_log2_bounds(1) [OF assms(1)] pe unfolding L_def
    by (intro mult_right_mono) simp_all
  then have "(2::rat) ^ 52 \<le> of_int m" by (simp add: m flip: power_int_add)
  then have lo: "2 ^ 52 \<le> m" by (simp flip: of_int_le_iff)
  have "x * 2 powi (52 - L) < (2::rat) powi (L + 1) * 2 powi (52 - L)"
    using floor_log2_bounds(2) [OF assms(1)] pe unfolding L_def
    by (intro mult_strict_right_mono) simp_all
  then have "of_int m < (2::rat) ^ 53" by (simp add: m flip: power_int_add)
  then have hi: "m < 2 ^ 53" by (simp flip: of_int_less_iff)
  show ?thesis using that [OF x [unfolded L_def] lo hi] .
qed


section \<open>Properties of the EventTime codec\<close>

lemma uint_byte: "uint (word_of_int x :: 8 word) = x mod 256"
  by (simp add: uint_word_of_int)

lemma split256: "(m::int) = m div 256 * 256 + m mod 256"
  by simp

lemma from_be_be32:
  assumes "0 \<le> n" "n < 4294967296"
  shows "from_be (be32 n) = n"
proof -
  define x1 where "x1 = n div 256"
  define x2 where "x2 = x1 div 256"
  define x3 where "x3 = x2 div 256"
  have e2: "n div 65536 = x2"
    unfolding x2_def x1_def by (simp add: zdiv_zmult2_eq [symmetric])
  have e3: "n div 16777216 = x3"
    unfolding x3_def x2_def x1_def by (simp add: zdiv_zmult2_eq [symmetric])
  have "0 \<le> x3" "x3 < 256"
    using assms e3 [symmetric] by simp_all
  then have a: "x3 mod 256 = x3" by simp
  have b: "x2 = x3 * 256 + x2 mod 256"
    unfolding x3_def by (rule split256)
  have c: "x1 = x2 * 256 + x1 mod 256"
    unfolding x2_def by (rule split256)
  have d: "n = x1 * 256 + n mod 256"
    unfolding x1_def by (rule split256)
  have "from_be (be32 n) =
      ((x3 mod 256 * 256 + x2 mod 256) * 256 + x1 mod 256) * 256 + n mod 256"
    by (simp add: from_be_def be32_def uint_byte e2 e3 x1_def [symmetric])
  also have "\<dots> = n" using a b c d by simp
  finally show ?thesis .
qed

lemma unpack_pack:
  assumes "pack_II a b = Inr d"
  shows "unpack_II d = Inr (a, b)"
proof -
  from assms have r: "0 \<le> a" "a < 4294967296" "0 \<le> b" "b < 4294967296"
    and d: "d = be32 a @ be32 b"
    by (auto simp: pack_II_def split: if_splits)
  have l: "length (be32 a) = 4" by (simp add: be32_def)
  have "length d = 8" by (simp add: d be32_def)
  then show ?thesis using l from_be_be32 r by (simp add: unpack_II_def d)
qed

lemma EventTime_pack:
  assumes "0 \<le> t" and "t < 2 ^ 32"
    and "fl ((t - of_int \<lfloor>t\<rfloor>) * 10 ^ 9) = (t - of_int \<lfloor>t\<rfloor>) * 10 ^ 9"
  shows "EventTime t = Inr \<lparr>code = 0, data = be32 \<lfloor>t\<rfloor> @ be32 \<lfloor>(t - of_int \<lfloor>t\<rfloor>) * 10 ^ 9\<rfloor>\<rparr>"
proof -
  have s0: "0 \<le> \<lfloor>t\<rfloor>" using assms by simp
  have "t < of_int 4294967296" using assms by simp
  then have s1: "\<lfloor>t\<rfloor> < 4294967296" by (simp only: floor_less_iff)
  define f where "f = t - of_int \<lfloor>t\<rfloor>"
  have f0: "0 \<le> f" and f1: "f < 1" unfolding f_def by linarith+
  have n0: "0 \<le> f * 10 ^ 9" using f0 by simp
  have "f * 10 ^ 9 < of_int 1000000000" using f1 by simp
  then have n1: "\<lfloor>f * 10 ^ 9\<rfloor> < 1000000000" by (simp only: floor_less_iff)
  have n2: "0 \<le> \<lfloor>f * 10 ^ 9\<rfloor>" using n0 by simp
  have m: "py_mod1 t = f" using assms(1) by (simp add: py_mod1_def f_def)
  have r: "fl (f * 10 ^ 9) = f * 10 ^ 9" using assms(3) by (simp only: f_def)
  have pn: "py_int (fl (py_mod1 t * 10 ^ 9)) = \<lfloor>f * 10 ^ 9\<rfloor>"
    unfolding m r using n0 by (simp only: py_int_def if_True)
  have ps: "py_int t = \<lfloor>t\<rfloor>" using assms(1) by (simp add: py_int_def)
  have "pack_II \<lfloor>t\<rfloor> \<lfloor>f * 10 ^ 9\<rfloor> = Inr (be32 \<lfloor>t\<rfloor> @ be32 \<lfloor>f * 10 ^ 9\<rfloor>)"
    using s0 s1 n1 n2 by (simp add: pack_II_def)
  then show ?thesis
    unfolding EventTime_def pn ps Let_def f_def [symmetric] by simp
qed

lemma from_bytes_packed:
  assumes "0 \<le> a" "a < 4294967296" "0 \<le> b" "b < 4294967296"
  shows "from_bytes (be32 a @ be32 b) = Inr (fl (of_int a + fl (of_int b / 10 ^ 9)))"
proof -
  have "pack_II a b = Inr (be32 a @ be32 b)" using assms by (simp add: pack_II_def)
  then have "unpack_II (be32 a @ be32 b) = Inr (a, b)" by (rule unpack_pack)
  then show ?thesis by (simp add: from_bytes_def)
qed


lemma two_errors:
  fixes q x u g c1 c2 c3 :: rat
  assumes "\<bar>q - x\<bar> \<le> c1" and "x \<le> u" and "u - c2 < x" and "c3 \<le> g"
    and "c1 + c2 < c3 / 2"
  shows "\<bar>q - x + (x - u)\<bar> < g / 2"
  using assms by linarith

lemma fl_zero [simp]: "fl 0 = 0"
  by (simp add: fl_def)

lemma double_in_range:
  assumes "fl t = t" and "2 ^ 24 \<le> t" and "t < 2 ^ 32"
  obtains m e where "t = of_int m * 2 powi e" "2 ^ 52 \<le> m" "m < 2 ^ 53"
    "- 28 \<le> e" "e \<le> - 21" "floor_log2 t = e + 52"
proof -
  have t0: "0 < t" using assms(2) by simp
  define L where "L = floor_log2 t"
  obtain m where m: "t = of_int m * 2 powi (L - 52)" "2 ^ 52 \<le> m" "m < 2 ^ 53"
    using fl_fixed_mantissa [OF t0 assms(1)] unfolding L_def by blast
  have "(2::rat) powi 24 < 2 powi (L + 1)"
    using floor_log2_bounds(2) [OF t0] assms(2) unfolding L_def by simp
  then have lo: "24 < L + 1" by (rule powi_less_imp_less)
  have "(2::rat) powi L < 2 powi 32"
    using floor_log2_bounds(1) [OF t0] assms(3) unfolding L_def by simp
  then have hi: "L < 32" by (rule powi_less_imp_less)
  have e1: "- 28 \<le> L - 52" and e2: "L - 52 \<le> - 21" using lo hi by simp_all
  have e3: "floor_log2 t = L - 52 + 52" by (simp add: L_def)
  show ?thesis by (rule that [OF m e1 e2 e3])
qed

lemma scaled_fraction:
  fixes j :: int
  shows "of_int j / 2 ^ 28 * 10 ^ 9 = (of_int (j * 1953125) :: rat) * 2 powi (- 19)"
  by (simp add: power_int_minus field_simps)

text \<open>
  C2, as the code has it. For every double \<open>t\<close> with \<open>2 ^ 24 \<le> t < 2 ^ 32\<close> (every Unix
  time from July 1970 up to the end of the 32-bit range), \<open>EventTime t\<close> packs without
  error and \<open>EventTime.from_bytes\<close> of its 8-byte payload returns \<open>t\<close> itself.
\<close>

theorem EventTime_roundtrip:
  assumes "fl t = t" and "2 ^ 24 \<le> t" and "t < 2 ^ 32"
  shows "\<exists>et. EventTime t = Inr et \<and> from_bytes (data et) = Inr t"
proof -
  obtain m e where me: "t = of_int m * 2 powi e" "2 ^ 52 \<le> m" "m < 2 ^ 53"
    "- 28 \<le> e" "e \<le> - 21" "floor_log2 t = e + 52"
    by (rule double_in_range [OF assms])
  have t0: "0 \<le> t" using assms(2) by simp
  \<comment> \<open>the timestamp is a whole number of units of \<open>2 ^ - 28\<close> seconds\<close>
  define T where "T = m * 2 ^ nat (e + 28)"
  have "(2::rat) powi (e + 28) = 2 powi e * 2 powi 28"
    by (rule power_int_add) simp
  then have pe: "(2::rat) powi e = 2 powi (e + 28) / 2 ^ 28" by simp
  have "(2::rat) powi (e + 28) = of_int (2 ^ nat (e + 28))"
    using me(4) by (simp add: power_int_def)
  then have tT: "t = of_int T / 2 ^ 28"
    unfolding me(1) T_def pe by simp
  define s where "s = T div 2 ^ 28"
  define j where "j = T mod 2 ^ 28"
  have "t = of_int T / of_int (2 ^ 28)" using tT by simp
  then have fs: "\<lfloor>t\<rfloor> = s" unfolding s_def by (simp only: floor_divide_of_int_eq)
  have "T = s * 2 ^ 28 + j" by (simp add: s_def j_def)
  then have "of_int T = (of_int (s * 2 ^ 28 + j) :: rat)" by simp
  then have "of_int T = (of_int s * 2 ^ 28 + of_int j :: rat)" by simp
  then have f: "t - of_int s = of_int j / 2 ^ 28" by (simp add: tT field_simps)
  have j0: "0 \<le> j" and j1: "j < 2 ^ 28" by (simp_all add: j_def)
  \<comment> \<open>the product with \<open>10 ^ 9\<close> needs no rounding\<close>
  have prod: "(t - of_int \<lfloor>t\<rfloor>) * 10 ^ 9 = of_int (j * 1953125) * 2 powi (- 19)"
    unfolding fs f by (rule scaled_fraction)
  have exact: "fl ((t - of_int \<lfloor>t\<rfloor>) * 10 ^ 9) = (t - of_int \<lfloor>t\<rfloor>) * 10 ^ 9"
  proof (cases "j = 0")
    case True
    then have "(t - of_int \<lfloor>t\<rfloor>) * 10 ^ 9 = 0" unfolding prod by simp
    then show ?thesis by (simp only: fl_zero)
  next
    case False
    then have "0 < j * 1953125" using j0 by simp
    moreover have "j * 1953125 < 2 ^ 53" using j1 by simp
    ultimately show ?thesis unfolding prod by (rule fl_exact)
  qed
  define ns where "ns = \<lfloor>(t - of_int \<lfloor>t\<rfloor>) * 10 ^ 9\<rfloor>"
  have et: "EventTime t = Inr \<lparr>code = 0, data = be32 s @ be32 ns\<rparr>"
    using EventTime_pack [OF t0 assms(3) exact] by (simp add: ns_def fs)
  have frac0: "0 \<le> t - of_int s" and frac1: "t - of_int s < 1"
    unfolding fs [symmetric] by linarith+
  have s0: "0 \<le> s" using t0 unfolding fs [symmetric] by simp
  have "t < of_int 4294967296" using assms(3) by simp
  then have s1: "s < 4294967296" unfolding fs [symmetric] by (simp only: floor_less_iff)
  have ns0: "0 \<le> ns" using frac0 unfolding ns_def fs by simp
  have "(t - of_int s) * 10 ^ 9 < of_int 1000000000" using frac1 by simp
  then have ns1: "ns < 1000000000" unfolding ns_def fs by (simp only: floor_less_iff)
  have dec: "from_bytes (be32 s @ be32 ns) = Inr (fl (of_int s + fl (of_int ns / 10 ^ 9)))"
    using s0 s1 ns0 ns1 by (intro from_bytes_packed) simp_all
  \<comment> \<open>the decoded sum rounds back to the timestamp\<close>
  have rnd: "fl (of_int s + fl (of_int ns / 10 ^ 9)) = t"
  proof (cases "j = 0")
    case True
    then have "ns = 0" and "of_int s = t" using f by (simp_all add: ns_def fs)
    then show ?thesis using assms(1) by (simp add: fl_def)
  next
    case False
    define x :: rat where "x = of_int ns / 10 ^ 9"
    define q where "q = fl x"
    define y where "y = of_int s + q"
    define g :: rat where "g = 2 powi e"
    have g0: "0 < g" by (simp add: g_def)
    have "(2::rat) powi (- 28) \<le> 2 powi e"
      using me(4) by (intro power_int_increasing) simp_all
    then have g28: "1 / 2 ^ 28 \<le> g" by (simp add: g_def power_int_minus field_simps)
    \<comment> \<open>truncation to nanoseconds loses less than \<open>1e-9\<close>\<close>
    have "of_int ns \<le> (t - of_int s) * 10 ^ 9" "(t - of_int s) * 10 ^ 9 < of_int ns + 1"
      unfolding ns_def fs by linarith+
    then have x_le: "x \<le> t - of_int s" and x_gt: "t - of_int s - 1 / 10 ^ 9 < x"
      by (simp_all add: x_def field_simps)
    have x0: "0 \<le> x" using ns0 by (simp add: x_def)
    have x1: "x < 1" using x_le frac1 by linarith
    \<comment> \<open>the division rounds by at most \<open>2 ^ - 54\<close>\<close>
    have qerr: "\<bar>q - x\<bar> \<le> 1 / 2 ^ 54"
    proof (cases "x = 0")
      case True
      then show ?thesis by (simp add: q_def fl_def)
    next
      case False
      then have xp: "0 < x" using x0 by simp
      have "(2::rat) powi floor_log2 x < 2 powi 0"
        using floor_log2_bounds(1) [OF xp] x1 by simp
      then have "floor_log2 x < 0" by (rule powi_less_imp_less)
      then have "(2::rat) powi (floor_log2 x - 52) \<le> 2 powi (- 53)"
        by (intro power_int_increasing) simp_all
      then have "(2::rat) powi (floor_log2 x - 52) / 2 \<le> 1 / 2 ^ 54"
        by (simp add: power_int_minus field_simps)
      then show ?thesis using fl_error [OF xp] unfolding q_def by linarith
    qed
    have yt: "y - t = (q - x) + (x - (t - of_int s))" by (simp add: y_def)
    have small: "(1 / 2 ^ 54 + 1 / 10 ^ 9 :: rat) < 1 / 2 ^ 28 / 2" by simp
    have near: "\<bar>y - t\<bar> < g / 2"
      unfolding yt by (rule two_errors [OF qerr x_le x_gt g28 small])
    \<comment> \<open>the sum lies in the binade of the timestamp\<close>
    have "m \<noteq> 2 ^ 52"
    proof
      assume "m = 2 ^ 52"
      then have "t = 2 ^ 52 * 2 powi e" using me(1) by simp
      also have "\<dots> = 2 powi (e + 52)" by (simp add: power_int_add)
      also have "\<dots> = of_int (2 ^ nat (e + 52))" using me(4) by (simp add: power_int_def)
      finally have "t - of_int \<lfloor>t\<rfloor> = 0" by (simp only: floor_of_int diff_self)
      then show False using f False by (simp add: fs)
    qed
    then have "2 ^ 52 + 1 \<le> m" using me(2) by simp
    then have "(of_int (2 ^ 52 + 1) :: rat) \<le> of_int m" by (simp only: of_int_le_iff)
    then have "(2 ^ 52 + 1 :: rat) \<le> of_int m" by simp
    then have "(2 ^ 52 + 1) * g \<le> of_int m * g"
      using g0 by (intro mult_right_mono) simp_all
    then have lo: "2 ^ 52 * g + g \<le> t" by (simp add: me(1) g_def algebra_simps)
    have "m \<le> 2 ^ 53 - 1" using me(3) by simp
    then have "of_int m \<le> (of_int (2 ^ 53 - 1) :: rat)" by (simp only: of_int_le_iff)
    then have "of_int m \<le> (2 ^ 53 - 1 :: rat)" by simp
    then have "of_int m * g \<le> (2 ^ 53 - 1) * g"
      using g0 by (intro mult_right_mono) simp_all
    then have hi: "t \<le> 2 ^ 53 * g - g" by (simp add: me(1) g_def algebra_simps)
    have b52: "(2::rat) powi (e + 52) = 2 ^ 52 * g" by (simp add: g_def power_int_add)
    have b53: "(2::rat) powi (e + 53) = 2 ^ 53 * g" by (simp add: g_def power_int_add)
    have ylo: "2 powi (e + 52) \<le> y" unfolding b52 using near lo g0 by linarith
    have yhi: "y < 2 powi (e + 53)" unfolding b53 using near hi g0 by linarith
    have "fl y = t"
      using fl_nearest [OF me(1) ylo yhi] near by (simp add: g_def)
    then show ?thesis by (simp add: y_def q_def x_def)
  qed
  show ?thesis using et dec rnd by simp
qed


text \<open>The timestamp \<open>1700000000.5\<close>: seconds \<open>0x6553F100\<close>, nanoseconds
  \<open>0x1DCD6500\<close>.\<close>

lemma EventTime_half:
  "EventTime (3400000001 / 2) = Inr \<lparr>code = 0, data = [101, 83, 241, 0, 29, 205, 101, 0]\<rparr>"
  by code_simp

theorem EventTime_roundtrip_witness:
  "fl (3400000001 / 2) = 3400000001 / 2
   \<and> (2 :: rat) ^ 24 \<le> 3400000001 / 2 \<and> (3400000001 / 2 :: rat) < 2 ^ 32
   \<and> EventTime (3400000001 / 2) = Inr \<lparr>code = 0, data = [101, 83, 241, 0, 29, 205, 101, 0]\<rparr>
   \<and> from_bytes [101, 83, 241, 0, 29, 205, 101, 0] = Inr (3400000001 / 2)"
proof -
  have a: "fl (3400000001 / 2) = 3400000001 / 2" by code_simp
  have b: "(2 :: rat) ^ 24 \<le> 3400000001 / 2" by simp
  have c: "(3400000001 / 2 :: rat) < 2 ^ 32" by simp
  obtain et where "EventTime (3400000001 / 2) = Inr et"
    and d: "from_bytes (data et) = Inr (3400000001 / 2)"
    using EventTime_roundtrip [OF a b c] by blast
  then have "et = \<lparr>code = 0, data = [101, 83, 241, 0, 29, 205, 101, 0]\<rparr>"
    by (simp add: EventTime_half)
  then have "from_bytes [101, 83, 241, 0, 29, 205, 101, 0] = Inr (3400000001 / 2)"
    using d by simp
  then show ?thesis using a b c EventTime_half by blast
qed

text \<open>
  Below \<open>2 ^ 24\<close> the round trip can miss by more than \<open>1e-9\<close>. The timestamp
  \<open>8388608.000000028\<close>, a whole number of nanoseconds, is the double
  \<open>2 ^ 23 + 15 / 2 ^ 29\<close>; its fraction times \<open>10 ^ 9\<close> is \<open>27.94\<close>, truncated to
  27 nanoseconds; and \<open>8388608 + 27 / 10 ^ 9\<close> rounds to the double
  \<open>2 ^ 23 + 14 / 2 ^ 29\<close>, which is \<open>1.86e-9\<close> below the timestamp.
\<close>

theorem EventTime_roundtrip_counterexample:
  "fl (8388608 + 28 / 10 ^ 9) = 8388608 + 15 / 2 ^ 29
   \<and> (0 :: rat) \<le> 8388608 + 15 / 2 ^ 29 \<and> (8388608 + 15 / 2 ^ 29 :: rat) < 2 ^ 32
   \<and> EventTime (8388608 + 15 / 2 ^ 29) = Inr \<lparr>code = 0, data = [0, 128, 0, 0, 0, 0, 0, 27]\<rparr>
   \<and> from_bytes [0, 128, 0, 0, 0, 0, 0, 27] = Inr (8388608 + 14 / 2 ^ 29)
   \<and> (1 / 10 ^ 9 :: rat) < \<bar>(8388608 + 14 / 2 ^ 29) - (8388608 + 15 / 2 ^ 29)\<bar>"
proof -
  have a: "fl (8388608 + 28 / 10 ^ 9) = 8388608 + 15 / 2 ^ 29" by code_simp
  have b: "EventTime (8388608 + 15 / 2 ^ 29)
      = Inr \<lparr>code = 0, data = [0, 128, 0, 0, 0, 0, 0, 27]\<rparr>" by code_simp
  have c: "from_bytes [0, 128, 0, 0, 0, 0, 0, 27] = Inr (8388608 + 14 / 2 ^ 29)" by code_simp
  have d: "(1 / 10 ^ 9 :: rat) < \<bar>(8388608 + 14 / 2 ^ 29) - (8388608 + 15 / 2 ^ 29)\<bar>"
    by simp
  show ?thesis using a b c d by simp
qed

section \<open>Properties of the sender\<close>

text \<open>
  C10. \<open>close\<close> changes nothing but the connection handles (and the ghost log): the
  pending buffer, \<open>last_error\<close>, \<open>last_error_time\<close> and \<open>error_count\<close> are as before,
  with no open writer the state is untouched, and when a writer was open and \<open>close\<close>
  returns, reader and writer are both \<open>None\<close>.
\<close>

theorem close_frame:
  "pendings (snd (close s e)) = pendings s
   \<and> last_error (snd (close s e)) = last_error s
   \<and> last_error_time (snd (close s e)) = last_error_time s
   \<and> error_count (snd (close s e)) = error_count s
   \<and> (\<exists>rd wr lg. snd (close s e) = s\<lparr>reader := rd, writer := wr, io_log := lg\<rparr>)
   \<and> (writer s = None \<longrightarrow> snd (close s e) = s)
   \<and> (writer s \<noteq> None \<and> fst (close s e) = None \<longrightarrow>
        reader (snd (close s e)) = None \<and> writer (snd (close s e)) = None)"
proof -
  have frame: "\<exists>rd wr lg. snd (close s e) = s\<lparr>reader := rd, writer := wr, io_log := lg\<rparr>"
  proof (cases "writer s")
    case None
    have "s = s\<lparr>reader := reader s, writer := writer s, io_log := io_log s\<rparr>" by simp
    moreover have "snd (close s e) = s" using None by (simp add: close_def)
    ultimately show ?thesis by metis
  next
    case (Some w)
    show ?thesis
    proof (cases "close_outcome e = None \<or> close_outcome e = Some RuntimeError")
      case True
      then have "snd (close s e) = s\<lparr>reader := None, writer := None, io_log := io_log s @ [WriterClose w]\<rparr>"
        using Some by (auto simp: close_def Let_def)
      then show ?thesis by blast
    next
      case False
      then have "snd (close s e) = s\<lparr>reader := reader s, writer := writer s, io_log := io_log s @ [WriterClose w]\<rparr>"
        using Some by (auto simp: close_def Let_def split: option.splits)
      then show ?thesis by blast
    qed
  qed
  have rest: "pendings (snd (close s e)) = pendings s"
    "last_error (snd (close s e)) = last_error s"
    "last_error_time (snd (close s e)) = last_error_time s"
    "error_count (snd (close s e)) = error_count s"
    "writer s = None \<longrightarrow> snd (close s e) = s"
    "writer s \<noteq> None \<and> fst (close s e) = None \<longrightarrow>
        reader (snd (close s e)) = None \<and> writer (snd (close s e)) = None"
    by (auto simp: close_def Let_def split: option.splits)
  show ?thesis using frame rest by blast
qed

theorem close_frame_witness:
  "writer connected_sender = Some 2
   \<and> fst (close (connected_sender\<lparr>pendings := Some [7, 8]\<rparr>) env_up) = None
   \<and> pendings (snd (close (connected_sender\<lparr>pendings := Some [7, 8]\<rparr>) env_up)) = Some [7, 8]
   \<and> writer (snd (close (connected_sender\<lparr>pendings := Some [7, 8]\<rparr>) env_up)) = None
   \<and> reader (snd (close (connected_sender\<lparr>pendings := Some [7, 8]\<rparr>) env_up)) = None"
  using close_frame [of "connected_sender\<lparr>pendings := Some [7, 8]\<rparr>" env_up]
  by (simp add: connected_sender_def env_up_def default_sender_def FluentSender_def
      async_send_def async_send_internal_def buffering_def get_writer_def connection_factory_def close_def
      truthy_def Let_def)






subsection \<open>What each operation leaves alone\<close>

lemma set_last_error_fields [simp]:
  "pendings (set_last_error err now s) = pendings s"
  "reader (set_last_error err now s) = reader s"
  "writer (set_last_error err now s) = writer s"
  "error_count (set_last_error err now s) = error_count s"
  "bufmax (set_last_error err now s) = bufmax s"
  "error_count_limit (set_last_error err now s) = error_count_limit s"
  "buffer_overflow_handler (set_last_error err now s) = buffer_overflow_handler s"
  "retry_timeout (set_last_error err now s) = retry_timeout s"
  "io_log (set_last_error err now s) = io_log s"
  by (simp_all add: set_last_error_def clear_last_error_def split: option.split)

lemma set_last_error_Some [simp]:
  "last_error (set_last_error (Some ex) now s) = Some ex"
  "last_error_time (set_last_error (Some ex) now s) = now"
  by (simp_all add: set_last_error_def)

lemma buffering_fields [simp]:
  "reader (fst (buffering s b)) = reader s"
  "writer (fst (buffering s b)) = writer s"
  "last_error (fst (buffering s b)) = last_error s"
  "last_error_time (fst (buffering s b)) = last_error_time s"
  "error_count (fst (buffering s b)) = error_count s"
  "bufmax (fst (buffering s b)) = bufmax s"
  "error_count_limit (fst (buffering s b)) = error_count_limit s"
  "buffer_overflow_handler (fst (buffering s b)) = buffer_overflow_handler s"
  "retry_timeout (fst (buffering s b)) = retry_timeout s"
  "io_log (fst (buffering s b)) = io_log s"
  by (simp_all add: buffering_def)

lemma buffering_pendings:
  "pendings (fst (buffering s b)) =
     (if truthy (pendings s) then Some (the (pendings s) @ b) else pendings s)"
  by (simp add: buffering_def)

lemma buffering_snd:
  "snd (buffering s b) = (if truthy (pendings s) then the (pendings s) @ b else b)"
  by (simp add: buffering_def)

lemma connection_factory_fields [simp]:
  "pendings (snd (connection_factory s e)) = pendings s"
  "reader (snd (connection_factory s e)) = reader s"
  "writer (snd (connection_factory s e)) = writer s"
  "error_count (snd (connection_factory s e)) = error_count s"
  "bufmax (snd (connection_factory s e)) = bufmax s"
  "error_count_limit (snd (connection_factory s e)) = error_count_limit s"
  "buffer_overflow_handler (snd (connection_factory s e)) = buffer_overflow_handler s"
  "retry_timeout (snd (connection_factory s e)) = retry_timeout s"
  "io_log (snd (connection_factory s e)) = io_log s @ [ConnectAttempt]"
  by (simp_all add: connection_factory_def Let_def split: sum.split)

lemma get_writer_open:
  "writer s = Some w \<Longrightarrow> get_writer s e = (Some w, s)"
  by (simp add: get_writer_def)

lemma get_writer_cooling:
  "writer s = None \<Longrightarrow> t_get_writer e < last_error_time s + retry_timeout s \<Longrightarrow>
   get_writer s e = (None, s)"
  by (simp add: get_writer_def)

lemma get_writer_connects:
  "writer s = None \<Longrightarrow> \<not> t_get_writer e < last_error_time s + retry_timeout s \<Longrightarrow>
   open_outcome e = Inr (r, w) \<Longrightarrow>
   get_writer s e = (Some w, s\<lparr>io_log := io_log s @ [ConnectAttempt], reader := Some r,
                                 writer := Some w, error_count := 0\<rparr>)"
  by (simp add: get_writer_def connection_factory_def Let_def)

lemma get_writer_refused:
  "writer s = None \<Longrightarrow> \<not> t_get_writer e < last_error_time s + retry_timeout s \<Longrightarrow>
   open_outcome e = Inl ex \<Longrightarrow>
   get_writer s e = (None, s\<lparr>io_log := io_log s @ [ConnectAttempt], last_error := Some ex,
                              last_error_time := t_connect_error e\<rparr>)"
  by (simp add: get_writer_def connection_factory_def set_last_error_def Let_def)

text \<open>The four ways \<open>get_writer\<close> can go.\<close>

lemma get_writer_cases:
  obtains (opened) w where "writer s = Some w" "get_writer s e = (Some w, s)"
  | (cooling) "writer s = None" "t_get_writer e < last_error_time s + retry_timeout s"
      "get_writer s e = (None, s)"
  | (connects) r w where "writer s = None"
      "\<not> t_get_writer e < last_error_time s + retry_timeout s" "open_outcome e = Inr (r, w)"
      "get_writer s e = (Some w, s\<lparr>io_log := io_log s @ [ConnectAttempt], reader := Some r,
                                 writer := Some w, error_count := 0\<rparr>)"
  | (refused) ex where "writer s = None"
      "\<not> t_get_writer e < last_error_time s + retry_timeout s" "open_outcome e = Inl ex"
      "get_writer s e = (None, s\<lparr>io_log := io_log s @ [ConnectAttempt], last_error := Some ex,
                              last_error_time := t_connect_error e\<rparr>)"
proof (cases "writer s")
  case (Some w)
  then show ?thesis using opened get_writer_open by blast
next
  case None
  show ?thesis
  proof (cases "t_get_writer e < last_error_time s + retry_timeout s")
    case True
    then show ?thesis using cooling None get_writer_cooling by blast
  next
    case False
    show ?thesis
    proof (cases "open_outcome e")
      case (Inl ex)
      then show ?thesis using refused None False get_writer_refused by blast
    next
      case (Inr c)
      obtain r w where "c = (r, w)" by (cases c)
      then show ?thesis using connects None False Inr get_writer_connects by blast
    qed
  qed
qed

lemma get_writer_fields [simp]:
  "pendings (snd (get_writer s e)) = pendings s"
  "bufmax (snd (get_writer s e)) = bufmax s"
  "error_count_limit (snd (get_writer s e)) = error_count_limit s"
  "buffer_overflow_handler (snd (get_writer s e)) = buffer_overflow_handler s"
  "retry_timeout (snd (get_writer s e)) = retry_timeout s"
  by (rule get_writer_cases [of s e]; simp)+


lemma clean_fields [simp]:
  "reader (clean s b e) = reader s"
  "writer (clean s b e) = writer s"
  "last_error (clean s b e) = last_error s"
  "last_error_time (clean s b e) = last_error_time s"
  "error_count (clean s b e) = error_count s"
  "bufmax (clean s b e) = bufmax s"
  "error_count_limit (clean s b e) = error_count_limit s"
  "buffer_overflow_handler (clean s b e) = buffer_overflow_handler s"
  "retry_timeout (clean s b e) = retry_timeout s"
  by (simp_all add: clean_def call_buffer_overflow_handler_def split: option.split)

lemma clean_pendings:
  "pendings (clean s b e) =
     (if truthy (pendings s) \<and> int (length (the (pendings s))) > bufmax s then None
      else Some b)"
  by (simp add: clean_def)

lemma clean_io_log:
  "io_log (clean s b e) =
     (if truthy (pendings s) \<and> int (length (the (pendings s))) > bufmax s
         \<and> buffer_overflow_handler s
      then io_log s @ [OverflowCall (the (pendings s))] else io_log s)"
  by (simp add: clean_def call_buffer_overflow_handler_def split: option.split)

lemma close_fields [simp]:
  "pendings (snd (close s e)) = pendings s"
  "last_error (snd (close s e)) = last_error s"
  "last_error_time (snd (close s e)) = last_error_time s"
  "error_count (snd (close s e)) = error_count s"
  "bufmax (snd (close s e)) = bufmax s"
  "error_count_limit (snd (close s e)) = error_count_limit s"
  "buffer_overflow_handler (snd (close s e)) = buffer_overflow_handler s"
  "retry_timeout (snd (close s e)) = retry_timeout s"
  by (simp_all add: close_def Let_def split: option.split)

lemma close_io_log:
  "io_log (snd (close s e)) =
     (case writer s of None \<Rightarrow> io_log s | Some w \<Rightarrow> io_log s @ [WriterClose w])"
  by (simp add: close_def Let_def split: option.split)

lemma close_raises:
  "fst (close s e) = Some ex \<longleftrightarrow>
     writer s \<noteq> None \<and> close_outcome e = Some ex \<and> ex \<noteq> RuntimeError"
  by (auto simp: close_def Let_def split: option.split)

lemma close_writer:
  "writer (snd (close s e)) = (if fst (close s e) = None then None else writer s)"
  by (auto simp: close_def Let_def split: option.split)


subsection \<open>The branches of the send\<close>

lemma internal_no_writer:
  assumes "buffering s b = (s1, p)" and "get_writer s1 e = (None, s2)"
  shows "async_send_internal s e b = (Inr False, clean s2 p e)"
  using assms by (simp add: async_send_internal_def)

lemma internal_delivered:
  assumes "buffering s b = (s1, p)" and "get_writer s1 e = (Some w, s2)"
    and "write_outcome e = None"
  shows "async_send_internal s e b =
     (Inr True, s2\<lparr>io_log := io_log s2 @ [Write w p], pendings := None,
                   last_error_time := 0\<rparr>)"
  using assms by (simp add: async_send_internal_def)

lemma internal_transport:
  assumes "buffering s b = (s1, p)" and "get_writer s1 e = (Some w, s2)"
    and "write_outcome e = Some ex" and "is_transport ex"
    and "s5 = clean (set_last_error (Some ex) (t_send_error e)
                 (s2\<lparr>io_log := io_log s2 @ [Write w p]\<rparr>)) p e"
  shows "async_send_internal s e b =
     ((case fst (close s5 e) of Some ex' \<Rightarrow> Inl ex' | None \<Rightarrow> Inr False), snd (close s5 e))"
proof -
  obtain r s6 where c: "close s5 e = (r, s6)" by (cases "close s5 e")
  show ?thesis
    using assms(1-4) c unfolding assms(5)
    by (cases r) (simp_all add: async_send_internal_def Let_def)
qed

lemma internal_unhandled:
  assumes "buffering s b = (s1, p)" and "get_writer s1 e = (Some w, s2)"
    and "write_outcome e = Some ex" and "\<not> is_transport ex"
    and "s6 = clean (set_last_error (Some ex) (t_send_error e)
                 (s2\<lparr>io_log := io_log s2 @ [Write w p],
                     error_count := error_count s2 + 1\<rparr>)) p e"
  shows "async_send_internal s e b =
     (if error_count s2 + 1 > error_count_limit s2
      then ((case fst (close s6 e) of Some ex' \<Rightarrow> Inl ex' | None \<Rightarrow> Inr False),
            snd (close s6 e))
      else (Inr False, s6))"
proof -
  obtain r s7 where c: "close s6 e = (r, s7)" by (cases "close s6 e")
  show ?thesis
    using assms(1-4) c unfolding assms(5)
    by (cases r) (simp_all add: async_send_internal_def Let_def)
qed

lemma async_send_fst:
  "fst (async_send s e b) =
     (case fst (async_send_internal s e b) of Inl ex \<Rightarrow> None | Inr r \<Rightarrow> Some r)"
  by (simp add: async_send_def split: prod.split sum.split)

lemma async_send_snd: "snd (async_send s e b) = snd (async_send_internal s e b)"
  by (simp add: async_send_def split: prod.split sum.split)

text \<open>Every send that does not deliver ends in \<open>clean\<close> on the coalesced payload, and
  nothing after \<open>clean\<close> touches the buffer.\<close>

lemma failed_internal_pendings:
  assumes "fst (async_send_internal s e b) \<noteq> Inr True"
  shows "pendings (snd (async_send_internal s e b)) =
     (if truthy (pendings (fst (buffering s b)))
         \<and> int (length (the (pendings (fst (buffering s b))))) > bufmax s then None
      else Some (snd (buffering s b)))"
proof -
  obtain s1 p where bf: "buffering s b = (s1, p)" by (cases "buffering s b")
  obtain r s2 where gw: "get_writer s1 e = (r, s2)" by (cases "get_writer s1 e")
  have s1: "s1 = fst (buffering s b)" and p: "p = snd (buffering s b)" using bf by simp_all
  have s2: "s2 = snd (get_writer s1 e)" using gw by simp
  have p2: "pendings s2 = pendings s1" and b2: "bufmax s2 = bufmax s"
    unfolding s2 s1 by simp_all
  show ?thesis
  proof (cases r)
    case None
    then show ?thesis
      using internal_no_writer [OF bf, of e s2] gw p2 b2
      by (simp add: clean_pendings s1 [symmetric] p [symmetric])
  next
    case (Some w)
    note r = this
    show ?thesis
    proof (cases "write_outcome e")
      case None
      then show ?thesis
        using internal_delivered [OF bf, of e w s2] gw r assms by simp
    next
      case (Some ex)
      show ?thesis
      proof (cases "is_transport ex")
        case True
        show ?thesis
          using internal_transport [OF bf _ Some True refl, of w s2] gw r p2 b2
          by (simp add: clean_pendings s1 [symmetric] p [symmetric])
      next
        case False
        show ?thesis
          using internal_unhandled [OF bf _ Some False refl, of w s2] gw r p2 b2
          by (simp add: clean_pendings s1 [symmetric] p [symmetric])
      qed
    qed
  qed
qed

lemma internal_fields [simp]:
  "bufmax (snd (async_send_internal s e b)) = bufmax s"
  "error_count_limit (snd (async_send_internal s e b)) = error_count_limit s"
  "buffer_overflow_handler (snd (async_send_internal s e b)) = buffer_overflow_handler s"
  "retry_timeout (snd (async_send_internal s e b)) = retry_timeout s"
proof -
  obtain s1 p where bf: "buffering s b = (s1, p)" by (cases "buffering s b")
  obtain r s2 where gw: "get_writer s1 e = (r, s2)" by (cases "get_writer s1 e")
  have s1: "s1 = fst (buffering s b)" using bf by simp
  have s2: "s2 = snd (get_writer s1 e)" using gw by simp
  have f: "bufmax s2 = bufmax s" "error_count_limit s2 = error_count_limit s"
    "buffer_overflow_handler s2 = buffer_overflow_handler s" "retry_timeout s2 = retry_timeout s"
    unfolding s2 s1 by simp_all
  have "bufmax (snd (async_send_internal s e b)) = bufmax s
    \<and> error_count_limit (snd (async_send_internal s e b)) = error_count_limit s
    \<and> buffer_overflow_handler (snd (async_send_internal s e b)) = buffer_overflow_handler s
    \<and> retry_timeout (snd (async_send_internal s e b)) = retry_timeout s"
  proof (cases r)
    case None
    then show ?thesis using internal_no_writer [OF bf, of e s2] gw f by simp
  next
    case (Some w)
    note r = this
    show ?thesis
    proof (cases "write_outcome e")
      case None
      then show ?thesis using internal_delivered [OF bf, of e w s2] gw r f by simp
    next
      case (Some ex)
      show ?thesis
      proof (cases "is_transport ex")
        case True
        show ?thesis
          using internal_transport [OF bf _ Some True refl, of w s2] gw r f by simp
      next
        case False
        show ?thesis
          using internal_unhandled [OF bf _ Some False refl, of w s2] gw r f by simp
      qed
    qed
  qed
  then show "bufmax (snd (async_send_internal s e b)) = bufmax s"
    "error_count_limit (snd (async_send_internal s e b)) = error_count_limit s"
    "buffer_overflow_handler (snd (async_send_internal s e b)) = buffer_overflow_handler s"
    "retry_timeout (snd (async_send_internal s e b)) = retry_timeout s"
    by simp_all
qed

subsection \<open>Buffering\<close>

lemma failed_send_pendings:
  assumes "fst (async_send s e b) \<noteq> Some True"
  shows "pendings (snd (async_send s e b)) =
     (if truthy (pendings s) \<and> int (length (the (pendings s) @ b)) > bufmax s then None
      else Some (if truthy (pendings s) then the (pendings s) @ b else b))"
proof -
  have "fst (async_send_internal s e b) \<noteq> Inr True"
    using assms by (auto simp: async_send_fst)
  then have "pendings (snd (async_send s e b)) =
     (if truthy (pendings (fst (buffering s b)))
         \<and> int (length (the (pendings (fst (buffering s b))))) > bufmax s then None
      else Some (snd (buffering s b)))"
    by (simp add: failed_internal_pendings async_send_snd)
  then show ?thesis
    by (cases "pendings s") (auto simp: buffering_pendings buffering_snd truthy_def)
qed

text \<open>
  C6. Starting with no backlog, let a send of \<open>A\<close> and then a send of \<open>B\<close> both fail
  (neither returns \<open>True\<close>), with \<open>A @ B\<close> no longer than \<open>bufmax\<close>. Then the one
  pending buffer of the sender holds \<open>A @ B\<close>.
\<close>

theorem buffer_coalescing:
  assumes "\<not> truthy (pendings s)"
    and "fst (async_send s e1 A) \<noteq> Some True"
    and "s1 = snd (async_send s e1 A)"
    and "fst (async_send s1 e2 B) \<noteq> Some True"
    and "int (length (A @ B)) \<le> bufmax s"
  shows "pendings (snd (async_send s1 e2 B)) = Some (A @ B)"
proof -
  have p1: "pendings s1 = Some A"
    using failed_send_pendings [OF assms(2)] assms(1,3) by simp
  have b1: "bufmax s1 = bufmax s"
    using assms(3) by (simp add: async_send_snd)
  show ?thesis
  proof (cases "A = []")
    case True
    then have "\<not> truthy (pendings s1)" using p1 by (simp add: truthy_def)
    then show ?thesis using failed_send_pendings [OF assms(4)] True by simp
  next
    case False
    then have "truthy (pendings s1)" using p1 by (simp add: truthy_def)
    then show ?thesis
      using failed_send_pendings [OF assms(4)] p1 b1 assms(5) by simp
  qed
qed

lemma down_first:
  "async_send (default_sender ''app'') env_down [1, 2] =
     (Some False, (default_sender ''app'')\<lparr>io_log := [ConnectAttempt],
        last_error := Some OSError, last_error_time := 100, pendings := Some [1, 2]\<rparr>)"
  by (simp add: async_send_def async_send_internal_def buffering_def get_writer_def
      connection_factory_def set_last_error_def clean_def truthy_def Let_def
      env_down_def default_sender_def FluentSender_def)


lemma down_second:
  "async_send (snd (async_send (default_sender ''app'') env_down [1, 2]))
       (env_down\<lparr>t_get_writer := 110\<rparr>) [3] =
     (Some False, (default_sender ''app'')\<lparr>io_log := [ConnectAttempt],
        last_error := Some OSError, last_error_time := 100, pendings := Some [1, 2, 3]\<rparr>)"
  by (simp add: down_first)
    (simp add: async_send_def async_send_internal_def buffering_def get_writer_def
      clean_def truthy_def Let_def env_down_def default_sender_def FluentSender_def)

theorem buffer_coalescing_witness:
  "\<not> truthy (pendings (default_sender ''app''))
   \<and> fst (async_send (default_sender ''app'') env_down [1, 2]) \<noteq> Some True
   \<and> fst (async_send (snd (async_send (default_sender ''app'') env_down [1, 2]))
        (env_down\<lparr>t_get_writer := 110\<rparr>) [3]) \<noteq> Some True
   \<and> int (length ([1, 2] @ [3 :: byte])) \<le> bufmax (default_sender ''app'')
   \<and> pendings (snd (async_send (snd (async_send (default_sender ''app'') env_down [1, 2]))
        (env_down\<lparr>t_get_writer := 110\<rparr>) [3])) = Some ([1, 2] @ [3])"
proof -
  have a: "\<not> truthy (pendings (default_sender ''app''))"
    by (simp add: default_sender_def FluentSender_def truthy_def)
  have b: "fst (async_send (default_sender ''app'') env_down [1, 2]) \<noteq> Some True"
    by (simp add: down_first)
  have c: "fst (async_send (snd (async_send (default_sender ''app'') env_down [1, 2]))
        (env_down\<lparr>t_get_writer := 110\<rparr>) [3]) \<noteq> Some True"
    by (simp add: down_second)
  have d: "int (length ([1, 2] @ [3 :: byte])) \<le> bufmax (default_sender ''app'')"
    by (simp add: default_sender_def FluentSender_def)
  show ?thesis
    using a b c d buffer_coalescing [OF a b refl c d] by blast
qed

subsection \<open>The overflow handler\<close>

lemma get_writer_overflow_log [simp]:
  "filter is_overflow (io_log (snd (get_writer s e))) = filter is_overflow (io_log s)"
  by (rule get_writer_cases [of s e]; simp)

lemma close_overflow_log [simp]:
  "filter is_overflow (io_log (snd (close s e))) = filter is_overflow (io_log s)"
  by (simp add: close_io_log split: option.split)








subsection \<open>The result of a send\<close>





lemma connected_sender_eq:
  "connected_sender = (default_sender ''app'')\<lparr>io_log := [ConnectAttempt, Write 2 [1, 2, 3]],
      reader := Some 1, writer := Some 2\<rparr>"
  by (simp add: connected_sender_def async_send_def async_send_internal_def buffering_def
      get_writer_def connection_factory_def truthy_def Let_def
      env_up_def default_sender_def FluentSender_def)




subsection \<open>The error counter\<close>

lemma get_writer_error_count:
  "error_count (snd (get_writer s e)) =
     (if writer s = None \<and> fst (get_writer s e) \<noteq> None then 0 else error_count s)"
  by (rule get_writer_cases [of s e]; simp)

lemma internal_error_count:
  "error_count (snd (async_send_internal s e b)) =
     error_count (snd (get_writer (fst (buffering s b)) e))
     + (if fst (get_writer (fst (buffering s b)) e) \<noteq> None \<and> internal_exception e
        then 1 else 0)"
proof -
  obtain s1 p where bf: "buffering s b = (s1, p)" by (cases "buffering s b")
  obtain r s2 where gw: "get_writer s1 e = (r, s2)" by (cases "get_writer s1 e")
  have s1: "s1 = fst (buffering s b)" using bf by simp
  show ?thesis
  proof (cases r)
    case None
    then show ?thesis
      using internal_no_writer [OF bf, of e s2] gw by (simp add: s1 [symmetric])
  next
    case (Some w)
    note rw = this
    show ?thesis
    proof (cases "write_outcome e")
      case None
      then show ?thesis
        using internal_delivered [OF bf, of e w s2] gw rw
        by (simp add: s1 [symmetric] internal_exception_def)
    next
      case (Some ex)
      show ?thesis
      proof (cases "is_transport ex")
        case True
        show ?thesis
          using internal_transport [OF bf _ Some True refl, of w s2] gw rw
          by (simp add: s1 [symmetric] internal_exception_def Some True)
      next
        case False
        show ?thesis
          using internal_unhandled [OF bf _ Some False refl, of w s2] gw rw
          by (simp add: s1 [symmetric] internal_exception_def Some False)
      qed
    qed
  qed
qed

text \<open>
  C8, as the code has it. After a send the error counter is: \<open>0\<close> if the send opened a
  new connection, the previous count otherwise; plus one exactly if a writer was obtained
  and the write raised an exception that is not of a transport class. So transport
  failures and connect failures never increment it, and a delivered send resets it only
  when that send had to connect.
\<close>

theorem error_count_send:
  "error_count (snd (async_send s e b)) =
     (if writer s = None \<and> fst (get_writer (fst (buffering s b)) e) \<noteq> None then 0
      else error_count s)
     + (if fst (get_writer (fst (buffering s b)) e) \<noteq> None \<and> internal_exception e
        then 1 else 0)"
  by (simp add: async_send_snd internal_error_count get_writer_error_count)

lemma faulted_sender_eq:
  "faulted_sender = (default_sender ''app'')\<lparr>io_log := [ConnectAttempt, Write 2 [1, 2, 3],
      Write 2 [4]], reader := Some 1, writer := Some 2, error_count := 1,
      last_error := Some OtherException, last_error_time := 200, pendings := Some [4]\<rparr>"
  by (simp add: faulted_sender_def connected_sender_eq)
    (simp add: async_send_def async_send_internal_def buffering_def get_writer_def
      set_last_error_def clean_def truthy_def Let_def env_up_def default_sender_def
      FluentSender_def)

lemma faulted_sender_delivers:
  "async_send faulted_sender env_up [5] =
     (Some True, (default_sender ''app'')\<lparr>io_log := [ConnectAttempt, Write 2 [1, 2, 3],
      Write 2 [4], Write 2 [4, 5]], reader := Some 1, writer := Some 2, error_count := 1,
      last_error := Some OtherException, last_error_time := 0, pendings := None\<rparr>)"
  by (simp add: faulted_sender_eq)
    (simp add: async_send_def async_send_internal_def buffering_def get_writer_def
      truthy_def Let_def env_up_def default_sender_def FluentSender_def)

theorem error_count_send_witness:
  "error_count (snd (async_send connected_sender
      (env_up\<lparr>write_outcome := Some OtherException\<rparr>) [4])) = 1
   \<and> error_count (snd (async_send connected_sender
      (env_up\<lparr>write_outcome := Some OSError\<rparr>) [4])) = 0"
  using error_count_send [of connected_sender
      "env_up\<lparr>write_outcome := Some OtherException\<rparr>" "[4]"]
    error_count_send [of connected_sender "env_up\<lparr>write_outcome := Some OSError\<rparr>" "[4]"]
  by (simp add: connected_sender_eq get_writer_def buffering_def truthy_def
      internal_exception_def env_up_def default_sender_def FluentSender_def)

text \<open>
  A successful send that does not reset the counter: on an open connection with one
  counted error the next send is delivered, returns \<open>True\<close>, and the count is still one.
\<close>

theorem error_count_not_reset_counterexample:
  "error_count faulted_sender = 1
   \<and> fst (async_send faulted_sender env_up [5]) = Some True
   \<and> error_count (snd (async_send faulted_sender env_up [5])) = 1"
  by (simp add: faulted_sender_delivers) (simp add: faulted_sender_eq)

subsection \<open>The error-count threshold\<close>

lemma clean_close_log [simp]:
  "filter is_close (io_log (clean s b e)) = filter is_close (io_log s)"
  by (simp add: clean_io_log)

lemma close_close_log:
  "filter is_close (io_log (snd (close s e))) =
     filter is_close (io_log s) @ (case writer s of None \<Rightarrow> [] | Some w \<Rightarrow> [WriterClose w])"
  by (simp add: close_io_log split: option.split)

lemma close_clears:
  assumes "close_outcome e = None \<or> close_outcome e = Some RuntimeError"
  shows "writer (snd (close s e)) = None"
  using assms by (auto simp: close_def Let_def split: option.split)

text \<open>One send on an open connection whose write raises an exception that is not of a
  transport class.\<close>

lemma unhandled_step:
  assumes "writer s = Some w" and "internal_exception e"
  shows "error_count (snd (async_send s e b)) = error_count s + 1"
    and "error_count_limit (snd (async_send s e b)) = error_count_limit s"
    and "error_count s + 1 \<le> error_count_limit s \<Longrightarrow>
           writer (snd (async_send s e b)) = Some w
           \<and> filter is_close (io_log (snd (async_send s e b))) = filter is_close (io_log s)"
    and "error_count s + 1 > error_count_limit s \<Longrightarrow>
           filter is_close (io_log (snd (async_send s e b)))
             = filter is_close (io_log s) @ [WriterClose w]
           \<and> (close_outcome e = None \<or> close_outcome e = Some RuntimeError \<longrightarrow>
                writer (snd (async_send s e b)) = None)"
proof -
  obtain s1 p where bf: "buffering s b = (s1, p)" by (cases "buffering s b")
  have s1: "s1 = fst (buffering s b)" using bf by simp
  have w1: "writer s1 = Some w" and c1: "error_count s1 = error_count s"
    and l1: "error_count_limit s1 = error_count_limit s" and g1: "io_log s1 = io_log s"
    using assms(1) by (simp_all add: s1)
  have gw: "get_writer s1 e = (Some w, s1)" by (rule get_writer_open [OF w1])
  obtain ex where wo: "write_outcome e = Some ex" and nt: "\<not> is_transport ex"
    using assms(2) by (auto simp: internal_exception_def split: option.splits)
  define s6 where "s6 = clean (set_last_error (Some ex) (t_send_error e)
                 (s1\<lparr>io_log := io_log s1 @ [Write w p],
                     error_count := error_count s1 + 1\<rparr>)) p e"
  have r: "async_send_internal s e b =
     (if error_count s1 + 1 > error_count_limit s1
      then ((case fst (close s6 e) of Some ex' \<Rightarrow> Inl ex' | None \<Rightarrow> Inr False),
            snd (close s6 e))
      else (Inr False, s6))"
    by (rule internal_unhandled [OF bf gw wo nt s6_def])
  have w6: "writer s6 = Some w" and c6: "error_count s6 = error_count s + 1"
    and l6: "error_count_limit s6 = error_count_limit s"
    and g6: "filter is_close (io_log s6) = filter is_close (io_log s)"
    using w1 c1 l1 g1 by (simp_all add: s6_def)
  show "error_count (snd (async_send s e b)) = error_count s + 1"
    using r c6 by (simp add: async_send_snd)
  show "error_count_limit (snd (async_send s e b)) = error_count_limit s"
    by (simp add: async_send_snd)
  show "error_count s + 1 \<le> error_count_limit s \<Longrightarrow>
           writer (snd (async_send s e b)) = Some w
           \<and> filter is_close (io_log (snd (async_send s e b))) = filter is_close (io_log s)"
    using r w6 g6 c1 l1 by (simp add: async_send_snd)
  show "error_count s + 1 > error_count_limit s \<Longrightarrow>
           filter is_close (io_log (snd (async_send s e b)))
             = filter is_close (io_log s) @ [WriterClose w]
           \<and> (close_outcome e = None \<or> close_outcome e = Some RuntimeError \<longrightarrow>
                writer (snd (async_send s e b)) = None)"
    using r w6 g6 c1 l1 close_clears [of e s6]
    by (simp add: async_send_snd close_close_log)
qed

lemma sends_snoc:
  "sends s (xs @ [x]) = snd (async_send (sends s xs) (fst x) (snd x))"
  by (induction xs arbitrary: s) simp_all

lemma unhandled_run:
  assumes "writer s = Some w" and "error_count s = 0"
    and "list_all (\<lambda>x. internal_exception (fst x)) xs"
    and "int (length xs) \<le> error_count_limit s"
  shows "writer (sends s xs) = Some w
    \<and> error_count (sends s xs) = int (length xs)
    \<and> error_count_limit (sends s xs) = error_count_limit s
    \<and> filter is_close (io_log (sends s xs)) = filter is_close (io_log s)"
  using assms(3,4)
proof (induction xs rule: rev_induct)
  case Nil
  then show ?case using assms(1,2) by simp
next
  case (snoc x xs)
  let ?t = "sends s xs"
  have ih: "writer ?t = Some w" "error_count ?t = int (length xs)"
    "error_count_limit ?t = error_count_limit s"
    "filter is_close (io_log ?t) = filter is_close (io_log s)"
    using snoc by simp_all
  have ie: "internal_exception (fst x)" using snoc.prems(1) by simp
  have le: "error_count ?t + 1 \<le> error_count_limit ?t"
    using snoc.prems(2) ih(2,3) by simp
  show ?case
    using unhandled_step(1,2) [OF ih(1) ie, of "snd x"]
      unhandled_step(3) [OF ih(1) ie le, of "snd x"] ih
    by (simp add: sends_snoc)
qed

text \<open>
  C5. Let the connection be open, the error counter \<open>0\<close> and \<open>error_count_limit = K\<close>.
  During \<open>K\<close> consecutive sends whose write raises an exception that is not of a
  transport class, the writer stays in place and \<open>writer.close\<close> is never called: this
  holds after each of the first \<open>n \<le> K\<close> of them. The next such send, the
  \<open>(K+1)\<close>-th, calls \<open>close\<close> on the writer, once, and the handle is cleared when
  \<open>writer.close()\<close> returns or raises \<open>RuntimeError\<close>.
\<close>

theorem error_count_threshold:
  assumes "writer s = Some w" and "error_count s = 0" and "error_count_limit s = int K"
    and "list_all (\<lambda>x. internal_exception (fst x)) xs" and "length xs = K"
    and "internal_exception e"
  shows "(\<forall>n\<le>K. writer (sends s (take n xs)) = Some w
            \<and> filter is_close (io_log (sends s (take n xs))) = filter is_close (io_log s))
    \<and> filter is_close (io_log (snd (async_send (sends s xs) e b)))
         = filter is_close (io_log s) @ [WriterClose w]
    \<and> (close_outcome e = None \<or> close_outcome e = Some RuntimeError \<longrightarrow>
          writer (snd (async_send (sends s xs) e b)) = None)"
proof -
  have pre: "writer (sends s (take n xs)) = Some w
      \<and> filter is_close (io_log (sends s (take n xs))) = filter is_close (io_log s)"
    if "n \<le> K" for n
  proof -
    have a: "list_all (\<lambda>x. internal_exception (fst x)) (take n xs)"
      using assms(4) by (auto simp: list_all_iff dest: in_set_takeD)
    have b: "int (length (take n xs)) \<le> error_count_limit s"
      using that assms(3,5) by simp
    show ?thesis using unhandled_run [OF assms(1,2) a b] by simp
  qed
  have a: "int (length xs) \<le> error_count_limit s" using assms(3,5) by simp
  have run: "writer (sends s xs) = Some w" "error_count (sends s xs) = int K"
    "error_count_limit (sends s xs) = int K"
    "filter is_close (io_log (sends s xs)) = filter is_close (io_log s)"
    using unhandled_run [OF assms(1,2,4) a] assms(3,5) by simp_all
  have gt: "error_count (sends s xs) + 1 > error_count_limit (sends s xs)"
    using run(2,3) by simp
  show ?thesis
    using pre unhandled_step(4) [OF run(1) assms(6) gt, of b] run(4) by simp
qed


lemma strict_sender_eq:
  "strict_sender = (FluentSender ''app'' ''localhost'' 24224 (1 * 1024 * 1024) 3 False False
            30 False 1)\<lparr>io_log := [ConnectAttempt, Write 2 [1, 2, 3]],
      reader := Some 1, writer := Some 2\<rparr>"
  by (simp add: strict_sender_def async_send_def async_send_internal_def buffering_def
      get_writer_def connection_factory_def truthy_def Let_def env_up_def FluentSender_def)

theorem error_count_threshold_witness:
  "writer strict_sender = Some 2 \<and> error_count strict_sender = 0
   \<and> error_count_limit strict_sender = int 1
   \<and> internal_exception env_fault
   \<and> close_outcome env_fault = None
   \<and> writer (sends strict_sender [(env_fault, [4])]) = Some 2
   \<and> filter is_close (io_log (sends strict_sender [(env_fault, [4])])) = []
   \<and> filter is_close (io_log (snd (async_send (sends strict_sender [(env_fault, [4])])
          env_fault [5]))) = [WriterClose 2]
   \<and> writer (snd (async_send (sends strict_sender [(env_fault, [4])]) env_fault [5])) = None"
proof -
  have a: "writer strict_sender = Some 2" by (simp add: strict_sender_eq)
  have b: "error_count strict_sender = 0" by (simp add: strict_sender_eq FluentSender_def)
  have c: "error_count_limit strict_sender = int 1"
    by (simp add: strict_sender_eq FluentSender_def)
  have d: "internal_exception env_fault"
    by (simp add: internal_exception_def env_fault_def env_up_def)
  have e: "list_all (\<lambda>x. internal_exception (fst x)) [(env_fault, [4 :: byte])]"
    using d by simp
  have f: "length [(env_fault, [4 :: byte])] = 1" by simp
  have g: "close_outcome env_fault = None" by (simp add: env_fault_def env_up_def)
  have h: "filter is_close (io_log strict_sender) = []" by (simp add: strict_sender_eq)
  note t = error_count_threshold [OF a b c e f d, of "[5]"]
  have t1: "writer (sends strict_sender (take 1 [(env_fault, [4])])) = Some 2
     \<and> filter is_close (io_log (sends strict_sender (take 1 [(env_fault, [4])])))
         = filter is_close (io_log strict_sender)"
    using t by blast
  show ?thesis
    using a b c d g h t t1 by simp
qed

subsection \<open>The error state\<close>

lemma get_writer_error_state:
  assumes "last_error s = None \<longrightarrow> last_error_time s = 0"
  shows "last_error (snd (get_writer s e)) = None \<longrightarrow> last_error_time (snd (get_writer s e)) = 0"
  by (rule get_writer_cases [of s e]; use assms in simp)

lemma internal_error_state:
  assumes "last_error s = None \<longrightarrow> last_error_time s = 0"
  shows "last_error (snd (async_send_internal s e b)) = None \<longrightarrow>
         last_error_time (snd (async_send_internal s e b)) = 0"
proof -
  obtain s1 p where bf: "buffering s b = (s1, p)" by (cases "buffering s b")
  obtain r s2 where gw: "get_writer s1 e = (r, s2)" by (cases "get_writer s1 e")
  have s1: "s1 = fst (buffering s b)" using bf by simp
  have s2: "s2 = snd (get_writer s1 e)" using gw by simp
  have i1: "last_error s1 = None \<longrightarrow> last_error_time s1 = 0"
    using assms by (simp add: s1)
  have i2: "last_error s2 = None \<longrightarrow> last_error_time s2 = 0"
    unfolding s2 by (rule get_writer_error_state [OF i1])
  show ?thesis
  proof (cases r)
    case None
    then show ?thesis using internal_no_writer [OF bf, of e s2] gw i2 by simp
  next
    case (Some w)
    note rw = this
    show ?thesis
    proof (cases "write_outcome e")
      case None
      then show ?thesis using internal_delivered [OF bf, of e w s2] gw rw by simp
    next
      case (Some ex)
      show ?thesis
      proof (cases "is_transport ex")
        case True
        show ?thesis
          using internal_transport [OF bf _ Some True refl, of w s2] gw rw by simp
      next
        case False
        show ?thesis
          using internal_unhandled [OF bf _ Some False refl, of w s2] gw rw by simp
      qed
    qed
  qed
qed

lemma send_error_state:
  assumes "last_error s = None \<longrightarrow> last_error_time s = 0"
  shows "last_error (snd (async_send s e b)) = None \<longrightarrow>
         last_error_time (snd (async_send s e b)) = 0"
  using internal_error_state [OF assms] by (simp add: async_send_snd)

lemma emit_with_time_error_state:
  assumes "last_error s = None \<longrightarrow> last_error_time s = 0"
  shows "last_error (snd (async_emit_with_time packb format_exc s e label t d)) = None \<longrightarrow>
         last_error_time (snd (async_emit_with_time packb format_exc s e label t d)) = 0"
proof (cases "EventTime t")
  case (Inl ex)
  then show ?thesis using assms by (simp add: async_emit_with_time_def)
next
  case (Inr et)
  show ?thesis
  proof (cases "make_packet packb s label et d")
    case (Inr bytes')
    then show ?thesis
      using send_error_state [OF assms, of e bytes'] \<open>EventTime t = Inr et\<close>
      by (simp add: async_emit_with_time_def case_prod_beta)
  next
    case (Inl ex)
    define s1 where "s1 = set_last_error (Some ex) (t_emit_error e) s"
    have i1: "last_error s1 = None \<longrightarrow> last_error_time s1 = 0" by (simp add: s1_def)
    show ?thesis
    proof (cases "make_packet packb s1 label et (diagnostic (format_exc ex))")
      case (Inl ex')
      then show ?thesis
        using i1 \<open>EventTime t = Inr et\<close> \<open>make_packet packb s label et d = Inl ex\<close>
        by (simp add: async_emit_with_time_def s1_def [symmetric] Let_def)
    next
      case (Inr bytes')
      then show ?thesis
        using send_error_state [OF i1, of e bytes'] \<open>EventTime t = Inr et\<close>
          \<open>make_packet packb s label et d = Inl ex\<close>
        by (simp add: async_emit_with_time_def s1_def [symmetric] Let_def case_prod_beta)
    qed
  qed
qed

lemma step_error_state:
  assumes "step s s'" and "last_error s = None \<longrightarrow> last_error_time s = 0"
  shows "last_error s' = None \<longrightarrow> last_error_time s' = 0"
  using assms
proof (induction rule: step.induct)
  case (step_emit s packb format_exc e label data' timestamp)
  then show ?case
    unfolding async_emit_def by (rule emit_with_time_error_state)
next
  case (step_emit_with_time s packb format_exc e label t data')
  then show ?case by (rule emit_with_time_error_state)
next
  case (step_send s e bytes')
  then show ?case by (rule send_error_state)
next
  case (step_send_internal s e bytes')
  then show ?case by (rule internal_error_state)
next
  case (step_get_writer s e)
  then show ?case by (rule get_writer_error_state)
next
  case (step_clean s bytes' e)
  then show ?case by simp
next
  case (step_close s e)
  then show ?case by simp
next
  case (step_set_last_error s err now)
  then show ?case by (cases err) (simp_all add: set_last_error_def clear_last_error_def)
next
  case (step_clear_last_error s)
  then show ?case by (simp add: clear_last_error_def)
qed

text \<open>
  C7, as the code has it. In every state reachable by the operations of the sender,
  \<open>last_error_time\<close> is \<open>0\<close> whenever \<open>last_error\<close> is \<open>None\<close>, and every operation keeps
  it so. The converse is not an invariant: see the counterexample below.
\<close>

theorem error_state_invariant:
  assumes "reachable s" and "last_error s = None"
  shows "last_error_time s = 0"
proof -
  have "last_error s = None \<longrightarrow> last_error_time s = 0"
    using assms(1)
  proof (induction rule: reachable.induct)
    case (reachable_init tag' host' port' bufmax' timeout' verbose' handler' retry_timeout'
        log_unhandled' error_count_limit')
    then show ?case by (simp add: FluentSender_def)
  next
    case (reachable_step s s')
    show ?case by (rule step_error_state [OF reachable_step.hyps(2) reachable_step.IH])
  qed
  then show ?thesis using assms(2) by simp
qed

lemma reachable_default: "reachable (default_sender tag')"
  unfolding default_sender_def by (rule reachable_init)

lemma reachable_send: "reachable s \<Longrightarrow> reachable (snd (async_send s e b))"
  by (rule reachable_step [OF _ step_send])

lemma reachable_connected: "reachable connected_sender"
  unfolding connected_sender_def by (rule reachable_send [OF reachable_default])

theorem error_state_invariant_witness:
  "reachable connected_sender \<and> last_error connected_sender = None
   \<and> last_error_time connected_sender = 0"
proof -
  have a: "last_error connected_sender = None"
    by (simp add: connected_sender_eq default_sender_def FluentSender_def)
  show ?thesis
    using reachable_connected a error_state_invariant [OF reachable_connected a] by simp
qed

lemma recovered_sender_eq:
  "recovered_sender = (default_sender ''app'')\<lparr>io_log := [ConnectAttempt, ConnectAttempt,
      Write 2 [1, 2, 3]], reader := Some 1, writer := Some 2, last_error := Some OSError,
      last_error_time := 0, pendings := None\<rparr>"
  by (simp add: recovered_sender_def down_first)
    (simp add: async_send_def async_send_internal_def buffering_def get_writer_def
      connection_factory_def truthy_def Let_def env_up_def default_sender_def FluentSender_def)

text \<open>
  A reachable state with \<open>last_error_time = 0\<close> and \<open>last_error\<close> present: the first send
  meets a refused connection, which records \<open>OSError\<close> at time 100; the second, at time
  200, connects and is delivered, and the success path sets \<open>last_error_time\<close> to \<open>0\<close> and
  leaves \<open>last_error\<close> as it is.
\<close>

theorem error_state_iff_counterexample:
  "reachable recovered_sender
   \<and> fst (async_send (snd (async_send (default_sender ''app'') env_down [1, 2])) env_up [3])
       = Some True
   \<and> last_error_time recovered_sender = 0
   \<and> last_error recovered_sender = Some OSError
   \<and> \<not> (last_error_time recovered_sender = 0 \<longleftrightarrow> last_error recovered_sender = None)"
proof -
  have r: "reachable recovered_sender"
    unfolding recovered_sender_def
    by (rule reachable_send [OF reachable_send [OF reachable_default]])
  have t: "fst (async_send (snd (async_send (default_sender ''app'') env_down [1, 2]))
      env_up [3]) = Some True"
    by (simp add: down_first)
      (simp add: async_send_def async_send_internal_def buffering_def get_writer_def
        connection_factory_def truthy_def Let_def env_up_def default_sender_def
        FluentSender_def)
  show ?thesis using r t by (simp add: recovered_sender_eq)
qed

subsection \<open>Records that cannot be serialised\<close>




end
